theory Spec2Isabelle
  imports Main
begin

section \<open>JavaScript values\<close>

text \<open>
  Payloads and the optional identifiers of an event are plain JavaScript values. Only the
  part of the value space the three modules touch is modelled: property access on an
  object, and truthiness (the \<^verbatim>\<open>||\<close> of \<^verbatim>\<open>domain-event.js\<close> and the \<^verbatim>\<open>!event\<close> of the
  projector).
\<close>

datatype jsval =
    Undefined
  | Null
  | Bool bool
  | Num int
  | Str string
  | Obj "(string \<times> jsval) list"

text \<open>\<^verbatim>\<open>v.k\<close> for a value that is neither \<^verbatim>\<open>null\<close> nor \<^verbatim>\<open>undefined\<close>: the property when
  the object has it, \<^verbatim>\<open>undefined\<close> otherwise.\<close>

definition field_of :: "jsval \<Rightarrow> string \<Rightarrow> jsval" where
  "field_of v k =
     (case v of
        Obj fs \<Rightarrow> (case map_of fs k of Some x \<Rightarrow> x | None \<Rightarrow> Undefined)
      | _ \<Rightarrow> Undefined)"

fun truthy :: "jsval \<Rightarrow> bool" where
  "truthy Undefined = False"
| "truthy Null = False"
| "truthy (Bool b) = b"
| "truthy (Num n) = (n \<noteq> 0)"
| "truthy (Str s) = (s \<noteq> [])"
| "truthy (Obj fs) = True"

text \<open>\<^verbatim>\<open>v || null\<close>.\<close>

definition or_null :: "jsval \<Rightarrow> jsval" where
  "or_null v = (if truthy v then v else Null)"

datatype error =
    Error string
  | TypeError string
  | ERR_UNHANDLED_ERROR

section \<open>Domain events (domain-event.js)\<close>

record metadata =
  timestamp :: string
  correlationId :: jsval
  causationId :: jsval
  logId :: "nat option"

record event =
  eventId :: string
  type :: string
  payload :: jsval
  metadata :: metadata

text \<open>
  The constructor reads two things from outside the program: \<^verbatim>\<open>uuidv4()\<close> and the clock
  (\<^verbatim>\<open>new Date().toISOString()\<close>). Both are streams the environment fixes in advance; the
  counters say how many values have been drawn.
\<close>

record env =
  uuids :: "nat \<Rightarrow> string"
  uuid_calls :: nat
  clock :: "nat \<Rightarrow> string"
  clock_reads :: nat

definition uuidv4 :: "env \<Rightarrow> string \<times> env" where
  "uuidv4 g = (uuids g (uuid_calls g), g\<lparr>uuid_calls := Suc (uuid_calls g)\<rparr>)"

definition toISOString_now :: "env \<Rightarrow> string \<times> env" where
  "toISOString_now g = (clock g (clock_reads g), g\<lparr>clock_reads := Suc (clock_reads g)\<rparr>)"

text \<open>
  \<^verbatim>\<open>constructor(type, payload, metadata = {})\<close>. The third argument is \<open>None\<close> when the
  caller leaves it out (the default \<^verbatim>\<open>{}\<close> applies) and the property table of the object
  passed otherwise.
\<close>

definition DomainEvent ::
  "env \<Rightarrow> string \<Rightarrow> jsval \<Rightarrow> (string \<times> jsval) list option \<Rightarrow> event \<times> env" where
  "DomainEvent g ty pl md =
     (let m = Obj (case md of None \<Rightarrow> [] | Some fs \<Rightarrow> fs);
          (eid, g1) = uuidv4 g;
          (ts, g2) = toISOString_now g1
      in (\<lparr> eventId = eid,
            type = ty,
            payload = pl,
            metadata = \<lparr> timestamp = ts,
                          correlationId = or_null (field_of m ''correlationId''),
                          causationId = or_null (field_of m ''causationId''),
                          logId = None \<rparr> \<rparr>,
          g2))"

text \<open>The identifiers \<^verbatim>\<open>uuidv4\<close> has handed out so far.\<close>

definition issued :: "env \<Rightarrow> string set" where
  "issued g = uuids g ` {..< uuid_calls g}"

section \<open>The event store and read model (database.js, not part of the sources)\<close>

text \<open>
  The bus and the projector reach the database through three calls. The module itself is
  not among the sources, so the calls are parameters: any store state \<open>'db\<close>, each call
  either failing with an error (a rejected promise) or returning its result.
  \<^item> \<^verbatim>\<open>logEvent(event)\<close> resolves to an object whose \<^verbatim>\<open>eventId\<close> is the log identifier;
  \<^item> \<^verbatim>\<open>getEventByLogId(logId)\<close> resolves to the stored event, or to nothing;
  \<^item> \<^verbatim>\<open>addMessage(chatId, userId, messageText)\<close> resolves to the row written.
\<close>

record 'db database =
  logEvent :: "'db \<Rightarrow> event \<Rightarrow> error + nat \<times> 'db"
  getEventByLogId :: "'db \<Rightarrow> nat option \<Rightarrow> error + event option"
  addMessage :: "'db \<Rightarrow> jsval \<Rightarrow> jsval \<Rightarrow> jsval \<Rightarrow> error + jsval \<times> 'db"

section \<open>Effects\<close>

text \<open>
  Everything a run does to the outside is recorded in order: a listener invoked (which
  one, on which channel, with which object, and what the object held at that moment), the
  rest of an \<^verbatim>\<open>async\<close> listener resumed after its first \<^verbatim>\<open>await\<close> (which one, invoked on
  which channel, with which object), a database call with what its promise settles to, a
  console line, and a call of \<^verbatim>\<open>eventBus.emit\<close>.
\<close>

datatype message =
    Persisted string nat
  | Critical string error
  | Projecting "nat option"
  | InvalidOrMissing "nat option"
  | FailedToSave error

datatype action =
    Invoke nat string nat event
  | Resume nat string nat
  | DbLogEvent nat event "error + nat"
  | DbGetEventByLogId "nat option" "error + event option"
  | DbAddMessage jsval jsval jsval "error + jsval"
  | BusEmit event
  | ConsoleLog message
  | ConsoleError message

section \<open>The native EventEmitter\<close>

text \<open>
  A listener is a JavaScript function registered with \<^verbatim>\<open>on\<close>. The call made by the native
  emitter is synchronous: it either throws (\<open>run\<close> gives the exception) or returns. The
  listeners of this repository are \<^verbatim>\<open>async\<close> functions: the call runs the body up to its
  first \<^verbatim>\<open>await\<close> and returns a promise, and the rest of the body runs later, when the
  event loop gets control. \<open>deferred\<close> says whether the call has left such a rest behind.
  Nobody awaits the promise: the native emitter drops what a listener returns, and the bus
  drops what the native emitter returns. \<^verbatim>\<open>domain-event.js\<close> documents an event as an
  immutable fact, so a listener reads the object it is handed and does not write to it;
  \<open>hid\<close> names the listener in the record of effects.
\<close>

record listener =
  hid :: nat
  run :: "event \<Rightarrow> error option"
  deferred :: "event \<Rightarrow> bool"

type_synonym listeners = "string \<Rightarrow> listener list"

type_synonym heap = "nat \<Rightarrow> event"

text \<open>\<^verbatim>\<open>on(type, listener)\<close>: the Proxy hands \<^verbatim>\<open>on\<close> to the native emitter, which appends the
  listener to those of the channel.\<close>

definition on :: "listeners \<Rightarrow> string \<Rightarrow> listener \<Rightarrow> listeners" where
  "on L ch l = L(ch := L ch @ [l])"

text \<open>
  The loop of the native \<^verbatim>\<open>emit\<close>: the listeners of the channel are called in registration
  order with the object; the first one that throws ends the loop, and its exception leaves
  \<^verbatim>\<open>emit\<close>. The second component of the result lists the listeners whose call returned
  with a rest of the body still to run: the continuations now waiting in the event loop.
\<close>

fun call_listeners ::
  "listener list \<Rightarrow> string \<Rightarrow> nat \<Rightarrow> heap \<Rightarrow> action list \<times> nat list \<times> error option" where
  "call_listeners [] ch r h = ([], [], None)"
| "call_listeners (l # ls) ch r h =
     (case run l (h r) of
        Some e \<Rightarrow> ([Invoke (hid l) ch r (h r)], [], Some e)
      | None \<Rightarrow>
          (case call_listeners ls ch r h of
             (tr, ps, x) \<Rightarrow>
               (Invoke (hid l) ch r (h r) # tr,
                (if deferred l (h r) then hid l # ps else ps), x)))"

text \<open>
  \<^verbatim>\<open>EventEmitter.prototype.emit(channel, object)\<close>. With no listener it returns at once,
  except on the channel \<^verbatim>\<open>'error'\<close>, where Node throws.
\<close>

definition native_emit ::
  "listeners \<Rightarrow> string \<Rightarrow> nat \<Rightarrow> heap \<Rightarrow> action list \<times> nat list \<times> error option" where
  "native_emit L ch r h =
     (if L ch = []
      then (if ch = ''error'' then ([], [], Some ERR_UNHANDLED_ERROR) else ([], [], None))
      else call_listeners (L ch) ch r h)"

section \<open>The event bus (event-bus.js)\<close>

text \<open>
  The \<^verbatim>\<open>try\<close> block of the intercepted \<^verbatim>\<open>emit\<close>. The event is an object on the heap,
  \<open>h r\<close>; the two assignments of the promotion step write to that object. The result is
  the record of effects, the heap, the store and the exception that left the block, if
  any.

  The block has one \<^verbatim>\<open>await\<close>, on the promise of \<^verbatim>\<open>db.logEvent(event)\<close>. Up to the call of
  \<^verbatim>\<open>db.logEvent\<close> everything runs in one turn of the event loop, so no continuation of an
  eager listener can run before that call. At the \<^verbatim>\<open>await\<close> the bus gives up control, and
  the continuations the eager listeners left behind get to run: the record shows them
  right after the call, the earliest they can run (one that waits for I/O of its own runs
  later still; none runs earlier). The continuations of guaranteed listeners, and those
  left when an eager listener throws, run after the body of \<^verbatim>\<open>emit\<close> has ended and are not
  part of its record.
\<close>

definition emit_try ::
  "listeners \<Rightarrow> 'db database \<Rightarrow> 'db \<Rightarrow> heap \<Rightarrow> nat \<Rightarrow> action list \<times> heap \<times> 'db \<times> error option" where
  "emit_try L db d h r =
     (case native_emit L (type (h r)) r h of
        (tr0, ps, Some e) \<Rightarrow> (tr0, h, d, Some e)
      | (tr0, ps, None) \<Rightarrow>
          (let resumed = map (\<lambda>i. Resume i (type (h r)) r) ps
           in (case logEvent db d (h r) of
                 Inl e \<Rightarrow> (tr0 @ DbLogEvent r (h r) (Inl e) # resumed, h, d, Some e)
               | Inr (lid, d') \<Rightarrow>
                   (let tr1 = DbLogEvent r (h r) (Inr lid) # resumed @
                                [ConsoleLog (Persisted (type (h r)) lid)];
                        kafkedEventName = type (h r) @ ''-KAFKED'';
                        h1 = h(r := (h r)\<lparr>metadata := (metadata (h r))\<lparr>logId := Some lid\<rparr>\<rparr>);
                        h2 = h1(r := (h1 r)\<lparr>type := kafkedEventName\<rparr>)
                    in (case native_emit L kafkedEventName r h2 of
                          (tr2, qs, x) \<Rightarrow> (tr0 @ tr1 @ tr2, h2, d', x))))))"

text \<open>The promise an \<^verbatim>\<open>async\<close> function returns settles one way or the other.\<close>

datatype outcome = Resolved | Rejected error

text \<open>
  The whole intercepted \<^verbatim>\<open>emit\<close>: the \<^verbatim>\<open>catch\<close> block writes one line to the console,
  naming the type the object has at that moment, and swallows the exception.
\<close>

definition emit ::
  "listeners \<Rightarrow> 'db database \<Rightarrow> 'db \<Rightarrow> heap \<Rightarrow> nat \<Rightarrow> action list \<times> heap \<times> 'db \<times> outcome" where
  "emit L db d h r =
     (case emit_try L db d h r of
        (tr, h', d', None) \<Rightarrow> (tr, h', d', Resolved)
      | (tr, h', d', Some e) \<Rightarrow> (tr @ [ConsoleError (Critical (type (h' r)) e)], h', d', Resolved))"

section \<open>The projector (persistence-service.js)\<close>

text \<open>
  The listener \<^verbatim>\<open>listen()\<close> registers on \<^verbatim>\<open>'incoming-message-KAFKED'\<close>, run to the end of
  its \<^verbatim>\<open>async\<close> body. \<^verbatim>\<open>payload\<close> and \<^verbatim>\<open>metadata\<close> are taken from the notification at
  the top; destructuring \<^verbatim>\<open>payload\<close> throws a TypeError when it is \<^verbatim>\<open>null\<close> or
  \<^verbatim>\<open>undefined\<close>. Every exception raised inside the \<^verbatim>\<open>try\<close> ends in the \<^verbatim>\<open>catch\<close>, which
  writes one console line.
\<close>

definition destructure_payload :: "jsval \<Rightarrow> error + jsval \<times> jsval \<times> jsval" where
  "destructure_payload p =
     (if p = Undefined \<or> p = Null then Inl (TypeError ''Cannot destructure property chatId'')
      else Inr (field_of p ''chatId'', field_of p ''userId'', field_of p ''messageText''))"

text \<open>\<^verbatim>\<open>!event || event.type !== 'incoming-message'\<close>.\<close>

definition missing_or_invalid :: "event option \<Rightarrow> bool" where
  "missing_or_invalid ev =
     (case ev of None \<Rightarrow> True | Some event \<Rightarrow> type event \<noteq> ''incoming-message'')"

definition on_incoming_message_KAFKED ::
  "'db database \<Rightarrow> env \<Rightarrow> 'db \<Rightarrow> event \<Rightarrow> action list \<times> 'db \<times> env" where
  "on_incoming_message_KAFKED db g d incomingEvent =
     (let payload = payload incomingEvent;
          metadata = metadata incomingEvent;
          tr0 = [ConsoleLog (Projecting (logId metadata))]
      in (case getEventByLogId db d (logId metadata) of
            Inl e \<Rightarrow>
              (tr0 @ [DbGetEventByLogId (logId metadata) (Inl e), ConsoleError (FailedToSave e)], d, g)
          | Inr ev \<Rightarrow>
              (let tr1 = tr0 @ [DbGetEventByLogId (logId metadata) (Inr ev)]
               in if missing_or_invalid ev
                  then (tr1 @ [ConsoleError (InvalidOrMissing (logId metadata))], d, g)
                  else
                    (case destructure_payload payload of
                       Inl e \<Rightarrow> (tr1 @ [ConsoleError (FailedToSave e)], d, g)
                     | Inr (chatId, userId, messageText) \<Rightarrow>
                         (case addMessage db d chatId userId messageText of
                            Inl e \<Rightarrow>
                              (tr1 @ [DbAddMessage chatId userId messageText (Inl e),
                                      ConsoleError (FailedToSave e)], d, g)
                          | Inr (projectedMessage, d') \<Rightarrow>
                              (case DomainEvent g ''message-projected'' projectedMessage
                                      (Some [(''correlationId'', correlationId metadata),
                                             (''causationId'', Str (eventId incomingEvent))]) of
                                 (projectedEvent, g') \<Rightarrow>
                                   (tr1 @ [DbAddMessage chatId userId messageText (Inr projectedMessage),
                                           BusEmit projectedEvent], d', g')))))))"

section \<open>Reading the record of effects\<close>

text \<open>The listeners invoked on a channel, in order: which one, with which object, and
  what the object held.\<close>

fun invocations :: "string \<Rightarrow> action list \<Rightarrow> (nat \<times> nat \<times> event) list" where
  "invocations ch [] = []"
| "invocations ch (Invoke i c r e # tr) =
     (if c = ch then (i, r, e) # invocations ch tr else invocations ch tr)"
| "invocations ch (DbLogEvent r e x # tr) = invocations ch tr"
| "invocations ch (DbGetEventByLogId l x # tr) = invocations ch tr"
| "invocations ch (DbAddMessage c u m x # tr) = invocations ch tr"
| "invocations ch (BusEmit e # tr) = invocations ch tr"
| "invocations ch (ConsoleLog m # tr) = invocations ch tr"
| "invocations ch (Resume i c r # tr) = invocations ch tr"
| "invocations ch (ConsoleError m # tr) = invocations ch tr"

text \<open>What every invoked listener was handed, whatever the channel.\<close>

fun delivered :: "action list \<Rightarrow> (nat \<times> event) list" where
  "delivered [] = []"
| "delivered (Invoke i c r e # tr) = (r, e) # delivered tr"
| "delivered (DbLogEvent r e x # tr) = delivered tr"
| "delivered (DbGetEventByLogId l x # tr) = delivered tr"
| "delivered (DbAddMessage c u m x # tr) = delivered tr"
| "delivered (BusEmit e # tr) = delivered tr"
| "delivered (ConsoleLog m # tr) = delivered tr"
| "delivered (Resume i c r # tr) = delivered tr"
| "delivered (ConsoleError m # tr) = delivered tr"

text \<open>The calls of \<^verbatim>\<open>db.logEvent\<close> with their results.\<close>

fun appends :: "action list \<Rightarrow> (event \<times> (error + nat)) list" where
  "appends [] = []"
| "appends (DbLogEvent r e x # tr) = (e, x) # appends tr"
| "appends (Invoke i c r e # tr) = appends tr"
| "appends (DbGetEventByLogId l x # tr) = appends tr"
| "appends (DbAddMessage c u m x # tr) = appends tr"
| "appends (BusEmit e # tr) = appends tr"
| "appends (ConsoleLog m # tr) = appends tr"
| "appends (Resume i c r # tr) = appends tr"
| "appends (ConsoleError m # tr) = appends tr"

text \<open>The calls of \<^verbatim>\<open>db.getEventByLogId\<close>, the read-model rows \<^verbatim>\<open>db.addMessage\<close> was asked to
  write, the events handed to \<^verbatim>\<open>eventBus.emit\<close>, and the lines of \<^verbatim>\<open>console.error\<close>.\<close>

fun fetches :: "action list \<Rightarrow> nat option list" where
  "fetches [] = []"
| "fetches (DbGetEventByLogId l x # tr) = l # fetches tr"
| "fetches (Invoke i c r e # tr) = fetches tr"
| "fetches (DbLogEvent r e x # tr) = fetches tr"
| "fetches (DbAddMessage c u m x # tr) = fetches tr"
| "fetches (BusEmit e # tr) = fetches tr"
| "fetches (ConsoleLog m # tr) = fetches tr"
| "fetches (Resume i c r # tr) = fetches tr"
| "fetches (ConsoleError m # tr) = fetches tr"

fun rows_written :: "action list \<Rightarrow> (jsval \<times> jsval \<times> jsval) list" where
  "rows_written [] = []"
| "rows_written (DbAddMessage c u m x # tr) = (c, u, m) # rows_written tr"
| "rows_written (Invoke i c r e # tr) = rows_written tr"
| "rows_written (DbLogEvent r e x # tr) = rows_written tr"
| "rows_written (DbGetEventByLogId l x # tr) = rows_written tr"
| "rows_written (BusEmit e # tr) = rows_written tr"
| "rows_written (ConsoleLog m # tr) = rows_written tr"
| "rows_written (Resume i c r # tr) = rows_written tr"
| "rows_written (ConsoleError m # tr) = rows_written tr"

fun published :: "action list \<Rightarrow> event list" where
  "published [] = []"
| "published (BusEmit e # tr) = e # published tr"
| "published (Invoke i c r e # tr) = published tr"
| "published (DbLogEvent r e x # tr) = published tr"
| "published (DbGetEventByLogId l x # tr) = published tr"
| "published (DbAddMessage c u m x # tr) = published tr"
| "published (ConsoleLog m # tr) = published tr"
| "published (Resume i c r # tr) = published tr"
| "published (ConsoleError m # tr) = published tr"

fun console_errors :: "action list \<Rightarrow> message list" where
  "console_errors [] = []"
| "console_errors (ConsoleError m # tr) = m # console_errors tr"
| "console_errors (Invoke i c r e # tr) = console_errors tr"
| "console_errors (DbLogEvent r e x # tr) = console_errors tr"
| "console_errors (DbGetEventByLogId l x # tr) = console_errors tr"
| "console_errors (DbAddMessage c u m x # tr) = console_errors tr"
| "console_errors (BusEmit e # tr) = console_errors tr"
| "console_errors (ConsoleLog m # tr) = console_errors tr"
| "console_errors (Resume i c r # tr) = console_errors tr"

text \<open>The continuations resumed: which listener, invoked on which channel.\<close>

fun resumed :: "action list \<Rightarrow> (nat \<times> string) list" where
  "resumed [] = []"
| "resumed (Resume i c r # tr) = (i, c) # resumed tr"
| "resumed (Invoke i c r e # tr) = resumed tr"
| "resumed (DbLogEvent r e x # tr) = resumed tr"
| "resumed (DbGetEventByLogId l x # tr) = resumed tr"
| "resumed (DbAddMessage c u m x # tr) = resumed tr"
| "resumed (BusEmit e # tr) = resumed tr"
| "resumed (ConsoleLog m # tr) = resumed tr"
| "resumed (ConsoleError m # tr) = resumed tr"

text \<open>The record without the continuations: the steps the bus itself takes.\<close>

fun bus_steps :: "action list \<Rightarrow> action list" where
  "bus_steps [] = []"
| "bus_steps (Resume i c r # tr) = bus_steps tr"
| "bus_steps (Invoke i c r e # tr) = Invoke i c r e # bus_steps tr"
| "bus_steps (DbLogEvent r e x # tr) = DbLogEvent r e x # bus_steps tr"
| "bus_steps (DbGetEventByLogId l x # tr) = DbGetEventByLogId l x # bus_steps tr"
| "bus_steps (DbAddMessage c u m x # tr) = DbAddMessage c u m x # bus_steps tr"
| "bus_steps (BusEmit e # tr) = BusEmit e # bus_steps tr"
| "bus_steps (ConsoleLog m # tr) = ConsoleLog m # bus_steps tr"
| "bus_steps (ConsoleError m # tr) = ConsoleError m # bus_steps tr"

text \<open>
  The phase a step of one publish belongs to, for an event published with type \<open>t\<close>:
  0 for a listener of \<open>t\<close> (eager), its call and its continuation alike, 1 for the
  append, 2 for a listener of the suffixed type (guaranteed). Console lines belong to no
  phase.
\<close>

fun phase :: "string \<Rightarrow> action \<Rightarrow> nat option" where
  "phase t (Invoke i c r e) =
     (if c = t then Some 0 else if c = t @ ''-KAFKED'' then Some 2 else None)"
| "phase t (Resume i c r) =
     (if c = t then Some 0 else if c = t @ ''-KAFKED'' then Some 2 else None)"
| "phase t (DbLogEvent r e x) = Some 1"
| "phase t (DbGetEventByLogId l x) = None"
| "phase t (DbAddMessage c u m x) = None"
| "phase t (BusEmit e) = None"
| "phase t (ConsoleLog m) = None"
| "phase t (ConsoleError m) = None"

definition phases :: "string \<Rightarrow> action list \<Rightarrow> nat list" where
  "phases t tr = List.map_filter (phase t) tr"

text \<open>The listeners the native emitter gets to call when the object holds \<open>e\<close>: all of
  them up to and including the first that throws.\<close>

fun called :: "listener list \<Rightarrow> event \<Rightarrow> listener list" where
  "called [] e = []"
| "called (l # ls) e = (if run l e = None then l # called ls e else [l])"

text \<open>The listeners, of a list whose calls all return, that leave a continuation behind.\<close>

definition pending :: "listener list \<Rightarrow> event \<Rightarrow> nat list" where
  "pending ls e = map hid (filter (\<lambda>l. deferred l e) ls)"

text \<open>The type carries the suffix the bus appends.\<close>

definition has_KAFKED_suffix :: "string \<Rightarrow> bool" where
  "has_KAFKED_suffix s = (drop (length s - 7) s = ''-KAFKED'')"

text \<open>The invariant of the data model: a suffixed type comes with a log identifier, an
  unsuffixed one with none.\<close>

definition suffix_invariant :: "event \<Rightarrow> bool" where
  "suffix_invariant e =
     (if has_KAFKED_suffix (type e) then logId (metadata e) \<noteq> None
      else logId (metadata e) = None)"

text \<open>The object after the promotion step of the bus.\<close>

definition promoted :: "event \<Rightarrow> nat \<Rightarrow> event" where
  "promoted e lid =
     e\<lparr>metadata := (metadata e)\<lparr>logId := Some lid\<rparr>, type := type e @ ''-KAFKED''\<rparr>"

section \<open>Properties of a run, as predicates\<close>

text \<open>
  The listeners of a channel were each invoked exactly once, in registration order: the
  invocations the record shows on the channel are the registered listeners, one for one.
\<close>

definition invoked_exactly_once :: "string \<Rightarrow> listeners \<Rightarrow> action list \<Rightarrow> bool" where
  "invoked_exactly_once ch L tr = (map fst (invocations ch tr) = map hid (L ch))"

text \<open>What the caller supplied under a key of the optional metadata argument.\<close>

definition supplied :: "(string \<times> jsval) list option \<Rightarrow> string \<Rightarrow> jsval" where
  "supplied md k = field_of (Obj (case md of None \<Rightarrow> [] | Some fs \<Rightarrow> fs)) k"

text \<open>
  ``Copied from the supplied metadata or defaulted to null when absent'': the value \<open>v\<close>
  an event carries under a key is the supplied one, and \<^verbatim>\<open>null\<close> when the argument, the key
  or its value is missing.
\<close>

definition copied_or_null :: "(string \<times> jsval) list option \<Rightarrow> string \<Rightarrow> jsval \<Rightarrow> bool" where
  "copied_or_null md k v =
     (if supplied md k = Undefined \<or> supplied md k = Null then v = Null else v = supplied md k)"

text \<open>
  What holds of every event the constructor builds, whatever the bus does to it later:
  the identifier is a UUID, so not the empty string, and the two optional identifiers have
  been through \<^verbatim>\<open>|| null\<close>.
\<close>

definition constructed :: "event \<Rightarrow> bool" where
  "constructed e \<longleftrightarrow>
     eventId e \<noteq> [] \<and>
     or_null (correlationId (metadata e)) = correlationId (metadata e) \<and>
     or_null (causationId (metadata e)) = causationId (metadata e)"

section \<open>A store and a scenario to run the definitions on\<close>

text \<open>
  Modelled from the spec: \<^verbatim>\<open>database.js\<close> is not among the sources. The spec gives the
  event store as an append-only log keyed by a unique log identifier, with
  \<^verbatim>\<open>append(event) -> logId\<close> failing on a write error and \<^verbatim>\<open>fetchByLogId\<close> returning the
  event or not-found, and the read model as a table of rows. None of the general results
  below depends on this store: they hold for every \<open>'db database\<close>. It serves to run the
  bus and the projector on concrete inputs.
\<close>

record store =
  writable :: bool
  next_logId :: nat
  event_log :: "(nat \<times> event) list"
  messages :: "jsval list"

text \<open>Modelled from the spec: \<^verbatim>\<open>logEvent\<close> of the missing \<^verbatim>\<open>database.js\<close>, the append of
  section 6: the event as it is at the call goes to the end of the log under the next
  identifier; a store that cannot be written fails.\<close>

definition store_logEvent :: "store \<Rightarrow> event \<Rightarrow> error + nat \<times> store" where
  "store_logEvent s e =
     (if writable s
      then Inr (next_logId s,
                s\<lparr>next_logId := Suc (next_logId s), event_log := event_log s @ [(next_logId s, e)]\<rparr>)
      else Inl (Error ''StoreWriteError''))"

text \<open>Modelled from the spec: \<^verbatim>\<open>getEventByLogId\<close> of the missing \<^verbatim>\<open>database.js\<close>, the
  \<^verbatim>\<open>fetchByLogId\<close> of section 6.\<close>

definition store_getEventByLogId :: "store \<Rightarrow> nat option \<Rightarrow> error + event option" where
  "store_getEventByLogId s l =
     Inr (case l of None \<Rightarrow> None | Some n \<Rightarrow> map_of (event_log s) n)"

text \<open>Modelled from the spec: \<^verbatim>\<open>addMessage\<close> of the missing \<^verbatim>\<open>database.js\<close>, the
  \<^verbatim>\<open>writeProjection(chatId, userId, text) -> projectedRecord\<close> of section 6.\<close>

definition store_addMessage :: "store \<Rightarrow> jsval \<Rightarrow> jsval \<Rightarrow> jsval \<Rightarrow> error + jsval \<times> store" where
  "store_addMessage s chatId userId messageText =
     (if writable s
      then (let row = Obj [(''id_chat'', chatId), (''id_user'', userId), (''message'', messageText)]
            in Inr (row, s\<lparr>messages := messages s @ [row]\<rparr>))
      else Inl (Error ''ProjectionWriteError''))"

definition store_db :: "store database" where
  "store_db = \<lparr> logEvent = store_logEvent,
                getEventByLogId = store_getEventByLogId,
                addMessage = store_addMessage \<rparr>"

text \<open>Scenario A of the spec: \<^verbatim>\<open>incoming-message{chatId:1,userId:7,messageText:"hi"}\<close>, and a
  store whose next log identifier is 42.\<close>

definition scenario_env :: env where
  "scenario_env = \<lparr> uuids = (\<lambda>n. CHR ''e'' # replicate n CHR ''+''), uuid_calls = 0,
                     clock = (\<lambda>n. CHR ''t'' # replicate n CHR ''+''), clock_reads = 0 \<rparr>"

text \<open>The environment once one event has been built.\<close>

definition later_env :: env where
  "later_env = scenario_env\<lparr>uuid_calls := 1, clock_reads := 1\<rparr>"

definition hi_payload :: jsval where
  "hi_payload = Obj [(''chatId'', Num 1), (''userId'', Num 7), (''messageText'', Str ''hi'')]"

definition incoming :: event where
  "incoming = fst (DomainEvent scenario_env ''incoming-message'' hi_payload
                     (Some [(''correlationId'', Str ''c-1'')]))"

definition empty_store :: store where
  "empty_store = \<lparr> writable = True, next_logId = 42, event_log = [], messages = [] \<rparr>"

definition broken_store :: store where
  "broken_store = empty_store\<lparr>writable := False\<rparr>"

text \<open>The store once the event of scenario A has been appended.\<close>

definition logged_store :: store where
  "logged_store = empty_store\<lparr>next_logId := 43, event_log := [(42, incoming)]\<rparr>"

text \<open>A listener that runs to its end and returns, one that throws, and an \<^verbatim>\<open>async\<close> one
  that returns at its first \<^verbatim>\<open>await\<close> with the rest of its body still to run.\<close>

definition quiet :: "nat \<Rightarrow> listener" where
  "quiet i = \<lparr> hid = i, run = (\<lambda>e. None), deferred = (\<lambda>e. False) \<rparr>"

definition throwing :: "nat \<Rightarrow> listener" where
  "throwing i = \<lparr> hid = i, run = (\<lambda>e. Some (Error ''boom'')), deferred = (\<lambda>e. False) \<rparr>"

definition awaiting :: "nat \<Rightarrow> listener" where
  "awaiting i = \<lparr> hid = i, run = (\<lambda>e. None), deferred = (\<lambda>e. True) \<rparr>"

definition no_listeners :: listeners where
  "no_listeners = (\<lambda>ch. [])"

text \<open>One eager listener and one guaranteed listener.\<close>

definition both_phases :: listeners where
  "both_phases =
     on (on no_listeners ''incoming-message'' (quiet 1)) ''incoming-message-KAFKED'' (quiet 2)"

text \<open>
  The listeners of the sources: \<^verbatim>\<open>src/persistence-service.js\<close> registers an \<^verbatim>\<open>async\<close>
  listener on \<^verbatim>\<open>'incoming-message'\<close>, which awaits \<^verbatim>\<open>db.addMessage\<close> and then emits; the
  projector registers an \<^verbatim>\<open>async\<close> listener on \<^verbatim>\<open>'incoming-message-KAFKED'\<close>.
\<close>

definition async_listeners :: listeners where
  "async_listeners =
     on (on no_listeners ''incoming-message'' (awaiting 1)) ''incoming-message-KAFKED'' (awaiting 2)"

text \<open>Three guaranteed listeners, the second of which throws.\<close>

definition second_guaranteed_throws :: listeners where
  "second_guaranteed_throws =
     on (on (on no_listeners ''incoming-message-KAFKED'' (quiet 1))
            ''incoming-message-KAFKED'' (throwing 2))
        ''incoming-message-KAFKED'' (quiet 3)"

text \<open>Two guaranteed listeners, the first of which throws.\<close>

definition first_guaranteed_throws :: listeners where
  "first_guaranteed_throws =
     on (on no_listeners ''incoming-message-KAFKED'' (throwing 1)) ''incoming-message-KAFKED'' (quiet 2)"

text \<open>Two eager listeners, the first of which throws, and a guaranteed one.\<close>

definition first_eager_throws :: listeners where
  "first_eager_throws =
     on (on (on no_listeners ''incoming-message'' (throwing 1)) ''incoming-message'' (quiet 2))
        ''incoming-message-KAFKED'' (quiet 3)"

text \<open>An event a producer builds with the suffixed type itself.\<close>

definition forged :: event where
  "forged = fst (DomainEvent scenario_env ''incoming-message-KAFKED'' hi_payload None)"

text \<open>A notification for log position 42 whose payload is not the stored one.\<close>

definition tampered_payload :: jsval where
  "tampered_payload =
     Obj [(''chatId'', Num 1), (''userId'', Num 7), (''messageText'', Str ''tampered'')]"

definition tampered_notification :: event where
  "tampered_notification = (promoted incoming 42)\<lparr>payload := tampered_payload\<rparr>"

section \<open>Auxiliary facts\<close>

subsection \<open>The functions that read a record distribute over its parts\<close>

lemma invocations_append: "invocations ch (xs @ ys) = invocations ch xs @ invocations ch ys"
  by (induction ch xs rule: invocations.induct) simp_all

lemma delivered_append: "delivered (xs @ ys) = delivered xs @ delivered ys"
  by (induction xs rule: delivered.induct) simp_all

lemma appends_append: "appends (xs @ ys) = appends xs @ appends ys"
  by (induction xs rule: appends.induct) simp_all

lemma phases_append: "phases t (xs @ ys) = phases t xs @ phases t ys"
  by (simp add: phases_def List.map_filter_def)

lemma resumed_append: "resumed (xs @ ys) = resumed xs @ resumed ys"
  by (induction xs rule: resumed.induct) simp_all

lemma bus_steps_append: "bus_steps (xs @ ys) = bus_steps xs @ bus_steps ys"
  by (induction xs rule: bus_steps.induct) simp_all

lemma invocations_Resume: "invocations ch (map (\<lambda>i. Resume i c r) ps) = []"
  by (induction ps) simp_all

lemma delivered_Resume: "delivered (map (\<lambda>i. Resume i c r) ps) = []"
  by (induction ps) simp_all

lemma appends_Resume: "appends (map (\<lambda>i. Resume i c r) ps) = []"
  by (induction ps) simp_all

lemma resumed_Resume: "resumed (map (\<lambda>i. Resume i c r) ps) = map (\<lambda>i. (i, c)) ps"
  by (induction ps) simp_all

lemma resumed_pending:
  "resumed (map (\<lambda>i. Resume i c r) (pending ls e)) =
     map (\<lambda>l. (hid l, c)) (filter (\<lambda>l. deferred l e) ls)"
  by (induction ls) (simp_all add: pending_def)

lemma resumed_Invoke: "resumed (map (\<lambda>l. Invoke (hid l) c r e) ls) = []"
  by (induction ls) simp_all

lemma bus_steps_Resume: "bus_steps (map (\<lambda>i. Resume i c r) ps) = []"
  by (induction ps) simp_all

lemma bus_steps_Invoke:
  "bus_steps (map (\<lambda>l. Invoke (hid l) c r e) ls) = map (\<lambda>l. Invoke (hid l) c r e) ls"
  by (induction ls) simp_all

lemma phases_Resume_eager: "phases t (map (\<lambda>i. Resume i t r) ps) = map (\<lambda>i. 0) ps"
  by (induction ps) (simp_all add: phases_def List.map_filter_def)

lemma invocations_Invoke_same:
  "invocations ch (map (\<lambda>l. Invoke (hid l) ch r e) ls) = map (\<lambda>l. (hid l, r, e)) ls"
  by (induction ls) simp_all

lemma invocations_Invoke_other:
  "c \<noteq> ch \<Longrightarrow> invocations ch (map (\<lambda>l. Invoke (hid l) c r e) ls) = []"
  by (induction ls) simp_all

lemma delivered_Invoke: "delivered (map (\<lambda>l. Invoke (hid l) c r e) ls) = map (\<lambda>l. (r, e)) ls"
  by (induction ls) simp_all

lemma appends_Invoke: "appends (map (\<lambda>l. Invoke (hid l) c r e) ls) = []"
  by (induction ls) simp_all

lemma phases_Invoke_eager: "phases t (map (\<lambda>l. Invoke (hid l) t r e) ls) = map (\<lambda>l. 0) ls"
  by (induction ls) (simp_all add: phases_def List.map_filter_def)

lemma phases_Invoke_guaranteed:
  "phases t (map (\<lambda>l. Invoke (hid l) (t @ ''-KAFKED'') r e) ls) = map (\<lambda>l. 2) ls"
  by (induction ls) (simp_all add: phases_def List.map_filter_def)

subsection \<open>The native emitter\<close>

lemma call_listeners_trace:
  "fst (call_listeners ls ch r h) = map (\<lambda>l. Invoke (hid l) ch r (h r)) (called ls (h r))"
  by (induction ls) (auto split: option.splits prod.splits)

lemma call_listeners_result:
  "snd (snd (call_listeners ls ch r h)) = None \<longleftrightarrow> (\<forall>l \<in> set ls. run l (h r) = None)"
  by (induction ls) (auto split: option.splits prod.splits)

lemma call_listeners_pending:
  "\<forall>l \<in> set ls. run l (h r) = None \<Longrightarrow>
     fst (snd (call_listeners ls ch r h)) = pending ls (h r)"
  by (induction ls) (auto simp add: pending_def split: option.splits prod.splits)

lemma called_all: "(\<forall>l \<in> set ls. run l e = None) \<Longrightarrow> called ls e = ls"
  by (induction ls) simp_all

lemma called_prefix: "\<exists>n. called ls e = take n ls"
proof (induction ls)
  case Nil
  then show ?case by simp
next
  case (Cons l ls)
  then obtain n where n: "called ls e = take n ls" by blast
  show ?case
  proof (cases "run l e = None")
    case True
    then have "called (l # ls) e = take (Suc n) (l # ls)" using n by simp
    then show ?thesis by blast
  next
    case False
    then have "called (l # ls) e = take (Suc 0) (l # ls)" by auto
    then show ?thesis by blast
  qed
qed

lemma native_emit_trace:
  "fst (native_emit L ch r h) = map (\<lambda>l. Invoke (hid l) ch r (h r)) (called (L ch) (h r))"
  by (simp add: native_emit_def call_listeners_trace)

lemma native_emit_returns:
  "snd (snd (native_emit L ch r h)) = None \<Longrightarrow> called (L ch) (h r) = L ch"
  by (auto simp add: native_emit_def call_listeners_result called_all split: if_splits)

lemma native_emit_pending:
  "snd (snd (native_emit L ch r h)) = None \<Longrightarrow>
     fst (snd (native_emit L ch r h)) = pending (L ch) (h r)"
  by (auto simp add: native_emit_def call_listeners_result call_listeners_pending pending_def
        split: if_splits)

text \<open>The listeners called are those that return, up to the first that throws, and that
  one.\<close>

lemma called_takeWhile:
  "called ls e =
     takeWhile (\<lambda>l. run l e = None) ls @ take 1 (dropWhile (\<lambda>l. run l e = None) ls)"
  by (induction ls) simp_all

subsection \<open>The three ways a publish can go\<close>

lemma emit_eager_throws:
  assumes "native_emit L (type (h r)) r h = (tr0, ps, Some e)"
  shows "emit L db d h r = (tr0 @ [ConsoleError (Critical (type (h r)) e)], h, d, Resolved)"
  using assms by (simp add: emit_def emit_try_def)

lemma emit_append_fails:
  assumes "native_emit L (type (h r)) r h = (tr0, ps, None)"
      and "logEvent db d (h r) = Inl e"
  shows "emit L db d h r =
           (tr0 @ DbLogEvent r (h r) (Inl e) # map (\<lambda>i. Resume i (type (h r)) r) ps @
              [ConsoleError (Critical (type (h r)) e)], h, d, Resolved)"
  using assms by (simp add: emit_def emit_try_def Let_def)

lemma emit_append_ok:
  assumes "native_emit L (type (h r)) r h = (tr0, ps, None)"
      and "logEvent db d (h r) = Inr (lid, d1)"
      and "native_emit L (type (h r) @ ''-KAFKED'') r (h(r := promoted (h r) lid)) = (tr2, qs, x)"
  shows "emit L db d h r =
           (tr0 @ DbLogEvent r (h r) (Inr lid) # map (\<lambda>i. Resume i (type (h r)) r) ps @
              ConsoleLog (Persisted (type (h r)) lid) # tr2 @
              (case x of None \<Rightarrow> [] | Some e \<Rightarrow> [ConsoleError (Critical (type (h r) @ ''-KAFKED'') e)]),
            h(r := promoted (h r) lid), d1, Resolved)"
  using assms by (cases x) (simp_all add: emit_def emit_try_def Let_def promoted_def)

lemma console_errors_append: "console_errors (xs @ ys) = console_errors xs @ console_errors ys"
  by (induction xs rule: console_errors.induct) simp_all

lemma console_errors_Invoke: "console_errors (map (\<lambda>l. Invoke (hid l) c r e) ls) = []"
  by (induction ls) simp_all

lemma emit_cases:
  obtains
    (eager_throws) e where
      "snd (snd (native_emit L (type (h r)) r h)) = Some e"
      "emit L db d h r =
         (map (\<lambda>l. Invoke (hid l) (type (h r)) r (h r)) (called (L (type (h r))) (h r)) @
            [ConsoleError (Critical (type (h r)) e)], h, d, Resolved)"
  | (append_fails) e where
      "snd (snd (native_emit L (type (h r)) r h)) = None"
      "logEvent db d (h r) = Inl e"
      "emit L db d h r =
         (map (\<lambda>l. Invoke (hid l) (type (h r)) r (h r)) (L (type (h r))) @
            DbLogEvent r (h r) (Inl e) #
            map (\<lambda>i. Resume i (type (h r)) r) (pending (L (type (h r))) (h r)) @
            [ConsoleError (Critical (type (h r)) e)], h, d, Resolved)"
  | (append_ok) lid d1 where
      "snd (snd (native_emit L (type (h r)) r h)) = None"
      "logEvent db d (h r) = Inr (lid, d1)"
      "emit L db d h r =
         (map (\<lambda>l. Invoke (hid l) (type (h r)) r (h r)) (L (type (h r))) @
            DbLogEvent r (h r) (Inr lid) #
            map (\<lambda>i. Resume i (type (h r)) r) (pending (L (type (h r))) (h r)) @
            ConsoleLog (Persisted (type (h r)) lid) #
            map (\<lambda>l. Invoke (hid l) (type (h r) @ ''-KAFKED'') r (promoted (h r) lid))
              (called (L (type (h r) @ ''-KAFKED'')) (promoted (h r) lid)) @
            (case snd (snd (native_emit L (type (h r) @ ''-KAFKED'') r (h(r := promoted (h r) lid)))) of
               None \<Rightarrow> []
             | Some e \<Rightarrow> [ConsoleError (Critical (type (h r) @ ''-KAFKED'') e)]),
          h(r := promoted (h r) lid), d1, Resolved)"
proof (cases "snd (snd (native_emit L (type (h r)) r h))")
  case (Some e)
  then have "native_emit L (type (h r)) r h =
      (fst (native_emit L (type (h r)) r h), fst (snd (native_emit L (type (h r)) r h)), Some e)"
    by (metis prod.collapse)
  from emit_eager_throws [OF this] Some show ?thesis
    by (intro eager_throws [of e]) (simp_all add: native_emit_trace)
next
  case None
  then have ne: "native_emit L (type (h r)) r h =
      (fst (native_emit L (type (h r)) r h), pending (L (type (h r))) (h r), None)"
    by (metis native_emit_pending prod.collapse)
  have all: "called (L (type (h r))) (h r) = L (type (h r))"
    using None by (rule native_emit_returns)
  show ?thesis
  proof (cases "logEvent db d (h r)")
    case (Inl e)
    from emit_append_fails [OF ne Inl] None Inl show ?thesis
      by (intro append_fails [of e]) (simp_all add: native_emit_trace all)
  next
    case (Inr p)
    obtain lid d1 where p: "p = (lid, d1)" by (cases p)
    let ?h2 = "h(r := promoted (h r) lid)"
    let ?kt = "type (h r) @ ''-KAFKED''"
    have g: "native_emit L ?kt r ?h2 =
        (fst (native_emit L ?kt r ?h2), fst (snd (native_emit L ?kt r ?h2)),
         snd (snd (native_emit L ?kt r ?h2)))"
      by simp
    have lg: "logEvent db d (h r) = Inr (lid, d1)" using Inr p by simp
    from emit_append_ok [OF ne lg g] None lg show ?thesis
      by (intro append_ok [of lid d1]) (simp_all add: native_emit_trace all)
  qed
qed

lemma console_errors_Resume: "console_errors (map (\<lambda>i. Resume i c r) ps) = []"
  by (induction ps) simp_all

lemmas trace_simps =
  invocations_append appends_append delivered_append console_errors_append phases_append
  resumed_append bus_steps_append
  invocations_Invoke_same invocations_Invoke_other appends_Invoke delivered_Invoke
  console_errors_Invoke phases_Invoke_eager phases_Invoke_guaranteed
  invocations_Resume delivered_Resume appends_Resume console_errors_Resume
  resumed_Resume resumed_Invoke bus_steps_Resume bus_steps_Invoke phases_Resume_eager

lemma phases_single [simp]:
  "phases t [DbLogEvent r e x] = [1]"
  "phases t [ConsoleLog m] = []"
  "phases t [ConsoleError m] = []"
  "phases t (DbLogEvent r e x # tr) = 1 # phases t tr"
  "phases t (ConsoleLog m # tr) = phases t tr"
  "phases t (ConsoleError m # tr) = phases t tr"
  "phases t [] = []"
  by (simp_all add: phases_def List.map_filter_def)

lemma has_KAFKED_suffix_appended: "has_KAFKED_suffix (t @ ''-KAFKED'')"
  by (simp add: has_KAFKED_suffix_def)

lemma has_KAFKED_suffix_iff: "has_KAFKED_suffix s \<longleftrightarrow> (\<exists>p. s = p @ ''-KAFKED'')"
proof
  assume "has_KAFKED_suffix s"
  then have "drop (length s - 7) s = ''-KAFKED''"
    by (simp add: has_KAFKED_suffix_def)
  then have "s = take (length s - 7) s @ ''-KAFKED''"
    by (metis append_take_drop_id)
  then show "\<exists>p. s = p @ ''-KAFKED''" by blast
next
  assume "\<exists>p. s = p @ ''-KAFKED''"
  then show "has_KAFKED_suffix s"
    by (auto simp add: has_KAFKED_suffix_def)
qed

lemma call_listeners_thrown:
  "snd (snd (call_listeners ls ch r h)) = Some e \<Longrightarrow> \<exists>l \<in> set ls. run l (h r) = Some e"
  by (induction ls) (auto split: option.splits prod.splits)

lemma native_emit_thrown:
  "snd (snd (native_emit L ch r h)) = Some e \<Longrightarrow>
     (\<exists>l \<in> set (L ch). run l (h r) = Some e) \<or> (L ch = [] \<and> ch = ''error'' \<and> e = ERR_UNHANDLED_ERROR)"
  by (auto simp add: native_emit_def dest: call_listeners_thrown split: if_splits)

lemma native_emit_throws:
  assumes "l \<in> set (L ch)" and "run l (h r) \<noteq> None"
  shows "snd (snd (native_emit L ch r h)) \<noteq> None"
proof
  assume "snd (snd (native_emit L ch r h)) = None"
  with assms(1) have "snd (snd (call_listeners (L ch) ch r h)) = None"
    by (auto simp add: native_emit_def split: if_splits)
  then have "run l (h r) = None"
    using assms(1) by (simp add: call_listeners_result)
  with assms(2) show False by simp
qed

lemma sorted_const: "sorted (map (\<lambda>l. c::nat) xs)"
  by (induction xs) auto

lemma sorted_three:
  "sorted (map (\<lambda>l. 0::nat) xs @ [1] @ map (\<lambda>l. 2) ys)"
  by (auto simp add: sorted_append sorted_const)

subsection \<open>The constructor\<close>

lemma DomainEvent_fields:
  "DomainEvent g ty pl md =
     (\<lparr> eventId = uuids g (uuid_calls g), type = ty, payload = pl,
        metadata = \<lparr> timestamp = clock g (clock_reads g),
                      correlationId = or_null (supplied md ''correlationId''),
                      causationId = or_null (supplied md ''causationId''),
                      logId = None \<rparr> \<rparr>,
      g\<lparr>uuid_calls := Suc (uuid_calls g), clock_reads := Suc (clock_reads g)\<rparr>)"
  by (simp add: DomainEvent_def uuidv4_def toISOString_now_def supplied_def Let_def)

lemma or_null_idem: "or_null (or_null v) = or_null v"
  by (simp add: or_null_def)

lemma DomainEvent_constructed:
  "uuids g (uuid_calls g) \<noteq> [] \<Longrightarrow> constructed (fst (DomainEvent g ty pl md))"
  by (simp add: DomainEvent_fields constructed_def or_null_idem)

lemma promoted_constructed: "constructed e \<Longrightarrow> constructed (promoted e lid)"
  by (simp add: constructed_def promoted_def)

subsection \<open>The scenarios, run\<close>

lemma scenario_uuids_inj: "inj (uuids scenario_env)"
  by (simp add: scenario_env_def inj_def)

lemma incoming_fields:
  "incoming = \<lparr> eventId = ''e'', type = ''incoming-message'', payload = hi_payload,
                 metadata = \<lparr> timestamp = ''t'', correlationId = Str ''c-1'',
                               causationId = Null, logId = None \<rparr> \<rparr>"
  by (simp add: incoming_def DomainEvent_fields scenario_env_def supplied_def field_of_def or_null_def)

lemma forged_fields:
  "forged = \<lparr> eventId = ''e'', type = ''incoming-message-KAFKED'', payload = hi_payload,
               metadata = \<lparr> timestamp = ''t'', correlationId = Null,
                             causationId = Null, logId = None \<rparr> \<rparr>"
  by (simp add: forged_def DomainEvent_fields scenario_env_def supplied_def field_of_def or_null_def)

lemmas scenario_defs =
  emit_def emit_try_def native_emit_def on_def no_listeners_def quiet_def throwing_def awaiting_def
  store_db_def store_logEvent_def empty_store_def broken_store_def Let_def

lemma both_phases_run:
  "emit both_phases store_db empty_store (\<lambda>a. incoming) 0 =
     ([Invoke 1 ''incoming-message'' 0 incoming,
       DbLogEvent 0 incoming (Inr 42),
       ConsoleLog (Persisted ''incoming-message'' 42),
       Invoke 2 ''incoming-message-KAFKED'' 0 (promoted incoming 42)],
      (\<lambda>a. incoming)(0 := promoted incoming 42),
      logged_store, Resolved)"
  by (simp add: scenario_defs both_phases_def logged_store_def incoming_fields promoted_def)

lemma broken_store_run:
  "emit both_phases store_db broken_store (\<lambda>a. incoming) 0 =
     ([Invoke 1 ''incoming-message'' 0 incoming,
       DbLogEvent 0 incoming (Inl (Error ''StoreWriteError'')),
       ConsoleError (Critical ''incoming-message'' (Error ''StoreWriteError''))],
      (\<lambda>a. incoming), broken_store, Resolved)"
  by (simp add: scenario_defs both_phases_def incoming_fields)

lemma first_guaranteed_throws_run:
  "emit first_guaranteed_throws store_db empty_store (\<lambda>a. incoming) 0 =
     ([DbLogEvent 0 incoming (Inr 42),
       ConsoleLog (Persisted ''incoming-message'' 42),
       Invoke 1 ''incoming-message-KAFKED'' 0 (promoted incoming 42),
       ConsoleError (Critical ''incoming-message-KAFKED'' (Error ''boom''))],
      (\<lambda>a. incoming)(0 := promoted incoming 42),
      logged_store, Resolved)"
  by (simp add: scenario_defs first_guaranteed_throws_def logged_store_def incoming_fields promoted_def)

lemma first_eager_throws_run:
  "emit first_eager_throws store_db empty_store (\<lambda>a. incoming) 0 =
     ([Invoke 1 ''incoming-message'' 0 incoming,
       ConsoleError (Critical ''incoming-message'' (Error ''boom''))],
      (\<lambda>a. incoming), empty_store, Resolved)"
  by (simp add: scenario_defs first_eager_throws_def incoming_fields)

lemma async_listeners_run:
  "emit async_listeners store_db empty_store (\<lambda>a. incoming) 0 =
     ([Invoke 1 ''incoming-message'' 0 incoming,
       DbLogEvent 0 incoming (Inr 42),
       Resume 1 ''incoming-message'' 0,
       ConsoleLog (Persisted ''incoming-message'' 42),
       Invoke 2 ''incoming-message-KAFKED'' 0 (promoted incoming 42)],
      (\<lambda>a. incoming)(0 := promoted incoming 42),
      logged_store, Resolved)"
  by (simp add: scenario_defs async_listeners_def logged_store_def incoming_fields promoted_def)

lemma second_guaranteed_throws_run:
  "emit second_guaranteed_throws store_db empty_store (\<lambda>a. incoming) 0 =
     ([DbLogEvent 0 incoming (Inr 42),
       ConsoleLog (Persisted ''incoming-message'' 42),
       Invoke 1 ''incoming-message-KAFKED'' 0 (promoted incoming 42),
       Invoke 2 ''incoming-message-KAFKED'' 0 (promoted incoming 42),
       ConsoleError (Critical ''incoming-message-KAFKED'' (Error ''boom''))],
      (\<lambda>a. incoming)(0 := promoted incoming 42),
      logged_store, Resolved)"
  by (simp add: scenario_defs second_guaranteed_throws_def logged_store_def incoming_fields promoted_def)

lemma forged_run:
  "emit both_phases store_db empty_store (\<lambda>a. forged) 0 =
     ([Invoke 2 ''incoming-message-KAFKED'' 0 forged,
       DbLogEvent 0 forged (Inr 42),
       ConsoleLog (Persisted ''incoming-message-KAFKED'' 42)],
      (\<lambda>a. forged)(0 := promoted forged 42),
      empty_store\<lparr>next_logId := 43, event_log := [(42, forged)]\<rparr>, Resolved)"
  by (simp add: scenario_defs both_phases_def forged_fields promoted_def)

lemma incoming_type: "type incoming = ''incoming-message''"
  by (simp add: incoming_fields)

lemma incoming_logId: "logId (metadata incoming) = None"
  by (simp add: incoming_fields)

lemma both_phases_guaranteed: "both_phases ''incoming-message-KAFKED'' = [quiet 2]"
  by (simp add: both_phases_def on_def no_listeners_def)

lemma first_guaranteed_throws_guaranteed:
  "first_guaranteed_throws ''incoming-message-KAFKED'' = [throwing 1, quiet 2]"
  by (simp add: first_guaranteed_throws_def on_def no_listeners_def)

lemma second_guaranteed_throws_guaranteed:
  "second_guaranteed_throws ''incoming-message-KAFKED'' = [quiet 1, throwing 2, quiet 3]"
  by (simp add: second_guaranteed_throws_def on_def no_listeners_def)

lemma async_listeners_eager: "async_listeners ''incoming-message'' = [awaiting 1]"
  by (simp add: async_listeners_def on_def no_listeners_def)

lemma first_eager_throws_eager:
  "first_eager_throws ''incoming-message'' = [throwing 1, quiet 2]"
  by (simp add: first_eager_throws_def on_def no_listeners_def)

subsection \<open>The five ways a projection can go\<close>

lemma projector_aborts:
  assumes "getEventByLogId db d (logId (metadata ev)) = Inr x"
      and "missing_or_invalid x"
  shows "on_incoming_message_KAFKED db g d ev =
           ([ConsoleLog (Projecting (logId (metadata ev))),
             DbGetEventByLogId (logId (metadata ev)) (Inr x),
             ConsoleError (InvalidOrMissing (logId (metadata ev)))], d, g)"
  using assms by (simp add: on_incoming_message_KAFKED_def Let_def)

lemma projector_fetch_fails:
  assumes "getEventByLogId db d (logId (metadata ev)) = Inl e"
  shows "on_incoming_message_KAFKED db g d ev =
           ([ConsoleLog (Projecting (logId (metadata ev))),
             DbGetEventByLogId (logId (metadata ev)) (Inl e),
             ConsoleError (FailedToSave e)], d, g)"
  using assms by (simp add: on_incoming_message_KAFKED_def Let_def)

lemma projector_bad_payload:
  assumes "getEventByLogId db d (logId (metadata ev)) = Inr x"
      and "\<not> missing_or_invalid x"
      and "destructure_payload (payload ev) = Inl e"
  shows "on_incoming_message_KAFKED db g d ev =
           ([ConsoleLog (Projecting (logId (metadata ev))),
             DbGetEventByLogId (logId (metadata ev)) (Inr x),
             ConsoleError (FailedToSave e)], d, g)"
  using assms by (simp add: on_incoming_message_KAFKED_def Let_def)

lemma projector_write_fails:
  assumes "getEventByLogId db d (logId (metadata ev)) = Inr x"
      and "\<not> missing_or_invalid x"
      and "destructure_payload (payload ev) = Inr (c, u, m)"
      and "addMessage db d c u m = Inl e"
  shows "on_incoming_message_KAFKED db g d ev =
           ([ConsoleLog (Projecting (logId (metadata ev))),
             DbGetEventByLogId (logId (metadata ev)) (Inr x),
             DbAddMessage c u m (Inl e),
             ConsoleError (FailedToSave e)], d, g)"
  using assms by (simp add: on_incoming_message_KAFKED_def Let_def)

lemma projector_succeeds:
  assumes "getEventByLogId db d (logId (metadata ev)) = Inr x"
      and "\<not> missing_or_invalid x"
      and "destructure_payload (payload ev) = Inr (c, u, m)"
      and "addMessage db d c u m = Inr (row, d1)"
  shows "on_incoming_message_KAFKED db g d ev =
           ([ConsoleLog (Projecting (logId (metadata ev))),
             DbGetEventByLogId (logId (metadata ev)) (Inr x),
             DbAddMessage c u m (Inr row),
             BusEmit (fst (DomainEvent g ''message-projected'' row
                        (Some [(''correlationId'', correlationId (metadata ev)),
                               (''causationId'', Str (eventId ev))])))],
            d1,
            snd (DomainEvent g ''message-projected'' row
                        (Some [(''correlationId'', correlationId (metadata ev)),
                               (''causationId'', Str (eventId ev))])))"
  using assms by (simp add: on_incoming_message_KAFKED_def Let_def split: prod.splits)

lemma projector_cases:
  obtains
    (fetch_fails) e where "getEventByLogId db d (logId (metadata ev)) = Inl e"
  | (aborts) x where "getEventByLogId db d (logId (metadata ev)) = Inr x" "missing_or_invalid x"
  | (bad_payload) x e where "getEventByLogId db d (logId (metadata ev)) = Inr x"
      "\<not> missing_or_invalid x" "destructure_payload (payload ev) = Inl e"
  | (write_fails) x c u m e where "getEventByLogId db d (logId (metadata ev)) = Inr x"
      "\<not> missing_or_invalid x" "destructure_payload (payload ev) = Inr (c, u, m)"
      "addMessage db d c u m = Inl e"
  | (succeeds) x c u m row d1 where "getEventByLogId db d (logId (metadata ev)) = Inr x"
      "\<not> missing_or_invalid x" "destructure_payload (payload ev) = Inr (c, u, m)"
      "addMessage db d c u m = Inr (row, d1)"
proof (cases "getEventByLogId db d (logId (metadata ev))")
  case (Inl e)
  then show ?thesis by (rule fetch_fails)
next
  case (Inr x)
  show ?thesis
  proof (cases "missing_or_invalid x")
    case True
    with Inr show ?thesis by (rule aborts)
  next
    case False
    show ?thesis
    proof (cases "destructure_payload (payload ev)")
      case (Inl e)
      with Inr False show ?thesis by (rule bad_payload)
    next
      case p: (Inr t)
      obtain c u m where t: "t = (c, u, m)" by (cases t)
      show ?thesis
      proof (cases "addMessage db d c u m")
        case (Inl e)
        with Inr False p t show ?thesis by (intro write_fails [of x c u m e]) simp_all
      next
        case w: (Inr q)
        obtain row d1 where "q = (row, d1)" by (cases q)
        with Inr False p t w show ?thesis by (intro succeeds [of x c u m row d1]) simp_all
      qed
    qed
  qed
qed

text \<open>Whatever the store returns, a row the projector writes is made of the fields of the
  notification's payload.\<close>

lemma row_written_from_notification:
  "rows_written (fst (on_incoming_message_KAFKED db g d ev)) = [] \<or>
   rows_written (fst (on_incoming_message_KAFKED db g d ev)) =
     [(field_of (payload ev) ''chatId'', field_of (payload ev) ''userId'',
       field_of (payload ev) ''messageText'')]"
proof (cases rule: projector_cases [of db d ev])
  case (fetch_fails e)
  from projector_fetch_fails [OF this, of g] show ?thesis by simp
next
  case (aborts x)
  from projector_aborts [OF this, of g] show ?thesis by simp
next
  case (bad_payload x e)
  from projector_bad_payload [OF this, of g] show ?thesis by simp
next
  case (write_fails x c u m e)
  from projector_write_fails [OF this, of g] write_fails(3) show ?thesis
    by (auto simp add: destructure_payload_def split: if_splits)
next
  case (succeeds x c u m row d1)
  from projector_succeeds [OF this, of g] succeeds(3) show ?thesis
    by (auto simp add: destructure_payload_def split: if_splits)
qed

lemma logged_fetch: "store_getEventByLogId logged_store (Some 42) = Inr (Some incoming)"
  by (simp add: store_getEventByLogId_def logged_store_def empty_store_def)

lemma empty_fetch: "store_getEventByLogId empty_store (Some 42) = Inr None"
  by (simp add: store_getEventByLogId_def empty_store_def)

lemma promoted_incoming:
  "promoted incoming 42 =
     \<lparr> eventId = ''e'', type = ''incoming-message-KAFKED'', payload = hi_payload,
       metadata = \<lparr> timestamp = ''t'', correlationId = Str ''c-1'',
                     causationId = Null, logId = Some 42 \<rparr> \<rparr>"
  by (simp add: promoted_def incoming_fields)

lemmas projector_defs =
  on_incoming_message_KAFKED_def store_db_def store_getEventByLogId_def store_addMessage_def
  missing_or_invalid_def destructure_payload_def field_of_def Let_def
  DomainEvent_fields supplied_def or_null_def

lemma projection_run:
  "on_incoming_message_KAFKED store_db later_env logged_store (promoted incoming 42) =
     ([ConsoleLog (Projecting (Some 42)),
       DbGetEventByLogId (Some 42) (Inr (Some incoming)),
       DbAddMessage (Num 1) (Num 7) (Str ''hi'')
         (Inr (Obj [(''id_chat'', Num 1), (''id_user'', Num 7), (''message'', Str ''hi'')])),
       BusEmit \<lparr> eventId = ''e+'', type = ''message-projected'',
                 payload = Obj [(''id_chat'', Num 1), (''id_user'', Num 7), (''message'', Str ''hi'')],
                 metadata = \<lparr> timestamp = ''t+'', correlationId = Str ''c-1'',
                               causationId = Str ''e'', logId = None \<rparr> \<rparr>],
      logged_store\<lparr>messages := [Obj [(''id_chat'', Num 1), (''id_user'', Num 7), (''message'', Str ''hi'')]]\<rparr>,
      later_env\<lparr>uuid_calls := 2, clock_reads := 2\<rparr>)"
  unfolding promoted_incoming
  by (simp add: projector_defs logged_store_def empty_store_def later_env_def scenario_env_def
        incoming_fields hi_payload_def)

lemma not_found_run:
  "on_incoming_message_KAFKED store_db later_env empty_store (promoted incoming 42) =
     ([ConsoleLog (Projecting (Some 42)),
       DbGetEventByLogId (Some 42) (Inr None),
       ConsoleError (InvalidOrMissing (Some 42))],
      empty_store, later_env)"
  unfolding promoted_incoming
  by (simp add: projector_defs empty_store_def)

section \<open>The claims\<close>

subsection \<open>C1: the projector and the payload it projects\<close>

text \<open>
  Claim C1: for every guaranteed-phase notification the projector handles successfully,
  the read-model row it writes is derived from the payload of the event re-fetched from
  the event store by \<^verbatim>\<open>metadata.logId\<close>, not from the payload the notification carries.

  The code does not do this: \<^verbatim>\<open>payload\<close> is destructured from the notification at the top
  of the listener, and the fetched event serves only the check of its type. Here the
  store holds, at log position 42, the event of scenario A with the text \<^verbatim>\<open>"hi"\<close>; the
  notification for position 42 carries the text \<^verbatim>\<open>"tampered"\<close>; the row written has the
  notification's text.
\<close>

theorem projector_writes_notification_payload:
  "getEventByLogId store_db logged_store (logId (metadata tampered_notification)) = Inr (Some incoming) \<and>
   field_of (payload incoming) ''messageText'' = Str ''hi'' \<and>
   rows_written (fst (on_incoming_message_KAFKED store_db later_env logged_store tampered_notification))
     = [(Num 1, Num 7, Str ''tampered'')]"
  unfolding tampered_notification_def promoted_incoming
  by (simp add: tampered_payload_def projector_defs
        logged_store_def empty_store_def incoming_fields hi_payload_def)

subsection \<open>C2: the guaranteed phase\<close>

text \<open>
  Claim C2, as amended: for every event whose durable append succeeds, the guaranteed
  phase happens once and after the append. No listener of the suffixed type is invoked
  before the append returns; every listener of the suffixed type that is invoked is handed
  the published object, and sees its type equal to the original type followed by
  \<^verbatim>\<open>-KAFKED\<close> and its \<^verbatim>\<open>metadata.logId\<close> equal to the identifier the append returned. The
  listeners invoked are, in registration order and each once, exactly the registered ones
  up to and including the first that throws: those before the first that throws, and that
  one. So they are an initial stretch of the registered listeners, and all of them, each
  exactly once, when none throws.
\<close>

theorem guaranteed_phase_after_append:
  assumes run: "emit L db d h r = (tr, h', d', out)"
      and ok: "(ev, Inr lid) \<in> set (appends tr)"
  shows "(\<exists>before after. tr = before @ DbLogEvent r (h r) (Inr lid) # after \<and>
            invocations (type (h r) @ ''-KAFKED'') before = []) \<and>
         (\<forall>(i, r', e) \<in> set (invocations (type (h r) @ ''-KAFKED'') tr).
            r' = r \<and> type e = type (h r) @ ''-KAFKED'' \<and> logId (metadata e) = Some lid) \<and>
         map fst (invocations (type (h r) @ ''-KAFKED'') tr) =
           map hid (takeWhile (\<lambda>l. run l (h' r) = None) (L (type (h r) @ ''-KAFKED'')) @
                    take 1 (dropWhile (\<lambda>l. run l (h' r) = None) (L (type (h r) @ ''-KAFKED'')))) \<and>
         (\<exists>n. map fst (invocations (type (h r) @ ''-KAFKED'') tr) =
                take n (map hid (L (type (h r) @ ''-KAFKED'')))) \<and>
         ((\<forall>l \<in> set (L (type (h r) @ ''-KAFKED'')). run l (h' r) = None) \<longrightarrow>
            invoked_exactly_once (type (h r) @ ''-KAFKED'') L tr)"
proof (cases rule: emit_cases [of L h r db d])
  case (eager_throws e)
  with run have "appends tr = []" by (auto simp add: trace_simps)
  with ok show ?thesis by simp
next
  case (append_fails e)
  with run have "appends tr = [(h r, Inl e)]" by (auto simp add: trace_simps)
  with ok show ?thesis by simp
next
  case (append_ok l1 d1)
  let ?t = "type (h r)"
  let ?kt = "type (h r) @ ''-KAFKED''"
  let ?p = "promoted (h r) l1"
  let ?res = "map (\<lambda>i. Resume i ?t r) (pending (L ?t) (h r))"
  let ?tail = "case snd (snd (native_emit L ?kt r (h(r := ?p)))) of
                 None \<Rightarrow> [] | Some e \<Rightarrow> [ConsoleError (Critical ?kt e)]"
  from append_ok run have tr: "tr = map (\<lambda>l. Invoke (hid l) ?t r (h r)) (L ?t) @
            DbLogEvent r (h r) (Inr l1) # ?res @ ConsoleLog (Persisted ?t l1) #
            map (\<lambda>l. Invoke (hid l) ?kt r ?p) (called (L ?kt) ?p) @ ?tail"
    and h': "h' = h(r := ?p)" by auto
  have tail: "invocations ?kt ?tail = []" "appends ?tail = []"
    by (simp_all split: option.splits)
  from tr ok tail have lid: "l1 = lid" by (simp add: trace_simps)
  have inv: "invocations ?kt tr = map (\<lambda>l. (hid l, r, ?p)) (called (L ?kt) ?p)"
    using tr tail by (simp add: trace_simps)
  have a: "\<exists>before after. tr = before @ DbLogEvent r (h r) (Inr lid) # after \<and>
            invocations ?kt before = []"
  proof (intro exI conjI)
    show "tr = map (\<lambda>l. Invoke (hid l) ?t r (h r)) (L ?t) @ DbLogEvent r (h r) (Inr lid) #
            (?res @ ConsoleLog (Persisted ?t l1) #
             map (\<lambda>l. Invoke (hid l) ?kt r ?p) (called (L ?kt) ?p) @ ?tail)"
      using tr lid by simp
    show "invocations ?kt (map (\<lambda>l. Invoke (hid l) ?t r (h r)) (L ?t)) = []"
      by (simp add: trace_simps)
  qed
  have b: "\<forall>(i, r', e) \<in> set (invocations ?kt tr).
            r' = r \<and> type e = ?kt \<and> logId (metadata e) = Some lid"
    using inv lid by (auto simp add: promoted_def)
  have hp: "h' r = ?p" using h' by simp
  have c0: "map fst (invocations ?kt tr) = map hid (called (L ?kt) (h' r))"
    using inv hp by (simp add: comp_def)
  have c: "map fst (invocations ?kt tr) =
           map hid (takeWhile (\<lambda>l. run l (h' r) = None) (L ?kt) @
                    take 1 (dropWhile (\<lambda>l. run l (h' r) = None) (L ?kt)))"
    by (simp only: c0 called_takeWhile)
  obtain n where n: "called (L ?kt) ?p = take n (L ?kt)"
    using called_prefix by blast
  have c': "\<exists>n. map fst (invocations ?kt tr) = take n (map hid (L ?kt))"
    using inv n by (auto simp add: comp_def take_map intro!: exI [of _ n])
  have d: "(\<forall>l \<in> set (L ?kt). run l (h' r) = None) \<longrightarrow> invoked_exactly_once ?kt L tr"
    using inv h' by (auto simp add: invoked_exactly_once_def called_all comp_def)
  from a b c c' d show ?thesis by (intro conjI)
qed

theorem guaranteed_phase_after_append_witness:
  "(incoming, Inr 42) \<in> set (appends (fst (emit both_phases store_db empty_store (\<lambda>a. incoming) 0))) \<and>
   invoked_exactly_once ''incoming-message-KAFKED'' both_phases
     (fst (emit both_phases store_db empty_store (\<lambda>a. incoming) 0)) \<and>
   list_all (\<lambda>(i, r', e). r' = 0 \<and> type e = ''incoming-message-KAFKED'' \<and> logId (metadata e) = Some 42)
     (invocations ''incoming-message-KAFKED'' (fst (emit both_phases store_db empty_store (\<lambda>a. incoming) 0))) \<and>
   (incoming, Inr 42)
     \<in> set (appends (fst (emit second_guaranteed_throws store_db empty_store (\<lambda>a. incoming) 0))) \<and>
   map hid (second_guaranteed_throws ''incoming-message-KAFKED'') = [1, 2, 3] \<and>
   map fst (invocations ''incoming-message-KAFKED''
              (fst (emit second_guaranteed_throws store_db empty_store (\<lambda>a. incoming) 0))) = [1, 2]"
proof -
  note run = both_phases_run
  have ok: "(incoming, Inr 42) \<in> set (appends (fst (emit both_phases store_db empty_store (\<lambda>a. incoming) 0)))"
    unfolding run by simp
  then have ok': "(incoming, Inr 42) \<in> set (appends
       [Invoke 1 ''incoming-message'' 0 incoming, DbLogEvent 0 incoming (Inr 42),
        ConsoleLog (Persisted ''incoming-message'' 42),
        Invoke 2 ''incoming-message-KAFKED'' 0 (promoted incoming 42)])"
    unfolding run by simp
  have quiet: "\<forall>l \<in> set (both_phases (type ((\<lambda>a. incoming) 0) @ ''-KAFKED'')).
                 run l (((\<lambda>a. incoming)(0 := promoted incoming 42)) 0) = None"
    by (simp add: incoming_type both_phases_guaranteed quiet_def)
  from guaranteed_phase_after_append [OF run ok'] quiet ok
  have first: "(incoming, Inr 42) \<in> set (appends (fst (emit both_phases store_db empty_store (\<lambda>a. incoming) 0))) \<and>
   invoked_exactly_once ''incoming-message-KAFKED'' both_phases
     (fst (emit both_phases store_db empty_store (\<lambda>a. incoming) 0)) \<and>
   list_all (\<lambda>(i, r', e). r' = 0 \<and> type e = ''incoming-message-KAFKED'' \<and> logId (metadata e) = Some 42)
     (invocations ''incoming-message-KAFKED'' (fst (emit both_phases store_db empty_store (\<lambda>a. incoming) 0)))"
    unfolding run by (auto simp add: incoming_type list_all_iff)
  note run2 = second_guaranteed_throws_run
  have ok2: "(incoming, Inr 42) \<in> set (appends
       [DbLogEvent 0 incoming (Inr 42),
        ConsoleLog (Persisted ''incoming-message'' 42),
        Invoke 1 ''incoming-message-KAFKED'' 0 (promoted incoming 42),
        Invoke 2 ''incoming-message-KAFKED'' 0 (promoted incoming 42),
        ConsoleError (Critical ''incoming-message-KAFKED'' (Error ''boom''))])"
    by simp
  have regs: "map hid (second_guaranteed_throws ''incoming-message-KAFKED'') = [1, 2, 3]"
    by (simp add: second_guaranteed_throws_guaranteed quiet_def throwing_def)
  from guaranteed_phase_after_append [OF run2 ok2, THEN conjunct2, THEN conjunct2, THEN conjunct1]
  have second: "map fst (invocations ''incoming-message-KAFKED''
              (fst (emit second_guaranteed_throws store_db empty_store (\<lambda>a. incoming) 0))) = [1, 2]"
    unfolding run2
    by (simp add: incoming_type second_guaranteed_throws_guaranteed quiet_def throwing_def)
  have ok3: "(incoming, Inr 42)
     \<in> set (appends (fst (emit second_guaranteed_throws store_db empty_store (\<lambda>a. incoming) 0)))"
    unfolding run2 by simp
  from first ok3 regs second show ?thesis by (intro conjI) (elim conjE, assumption)+
qed

text \<open>
  Claim C2 as stated asks for every guaranteed-phase listener to be invoked exactly once
  whenever the append succeeds. With two listeners registered on the suffixed type, the
  first of which throws, the append succeeds and the second listener is never invoked: the
  native emitter stops at the exception, which the \<^verbatim>\<open>catch\<close> of the bus then logs.
\<close>

theorem guaranteed_listener_skipped_after_throw:
  "(incoming, Inr 42) \<in> set (appends (fst (emit first_guaranteed_throws store_db empty_store (\<lambda>a. incoming) 0))) \<and>
   \<not> invoked_exactly_once ''incoming-message-KAFKED'' first_guaranteed_throws
        (fst (emit first_guaranteed_throws store_db empty_store (\<lambda>a. incoming) 0))"
  unfolding first_guaranteed_throws_run
  by (simp add: invoked_exactly_once_def first_guaranteed_throws_guaranteed quiet_def throwing_def)

subsection \<open>C3: a failed append\<close>

text \<open>
  Claim C3: for every publish in which the append fails, no guaranteed-phase listener is
  invoked; the event is not promoted (the heap is as it was: the type of the object has
  gained no suffix and its \<^verbatim>\<open>logId\<close> has not been set); the eager-phase listeners have each
  been invoked exactly once; the append was tried once and the store is unchanged; and the
  failure is reported, as one \<^verbatim>\<open>console.error\<close> line carrying the error, while the promise
  of \<^verbatim>\<open>emit\<close> resolves.
\<close>

theorem append_failure_stops_publish:
  assumes run: "emit L db d h r = (tr, h', d', out)"
      and fails: "(ev, Inl err) \<in> set (appends tr)"
  shows "invocations (type (h r) @ ''-KAFKED'') tr = [] \<and>
         h' = h \<and> type (h' r) = type (h r) \<and> logId (metadata (h' r)) = logId (metadata (h r)) \<and>
         invoked_exactly_once (type (h r)) L tr \<and>
         appends tr = [(h r, Inl err)] \<and> d' = d \<and>
         console_errors tr = [Critical (type (h r)) err] \<and>
         out = Resolved"
proof (cases rule: emit_cases [of L h r db d])
  case (eager_throws e)
  with run have "appends tr = []" by (auto simp add: trace_simps)
  with fails show ?thesis by simp
next
  case (append_fails e)
  with run have tr: "tr = map (\<lambda>l. Invoke (hid l) (type (h r)) r (h r)) (L (type (h r))) @
            DbLogEvent r (h r) (Inl e) #
            map (\<lambda>i. Resume i (type (h r)) r) (pending (L (type (h r))) (h r)) @
            [ConsoleError (Critical (type (h r)) e)]"
    and rest: "h' = h" "d' = d" "out = Resolved" by auto
  from tr fails have "err = e" by (simp add: trace_simps)
  with tr rest show ?thesis
    by (simp add: trace_simps invoked_exactly_once_def comp_def)
next
  case (append_ok lid d1)
  with run have "appends tr = [(h r, Inr lid)]"
    by (auto simp add: trace_simps split: option.splits)
  with fails show ?thesis by simp
qed

theorem append_failure_stops_publish_witness:
  "(incoming, Inl (Error ''StoreWriteError''))
      \<in> set (appends (fst (emit both_phases store_db broken_store (\<lambda>a. incoming) 0))) \<and>
   invocations ''incoming-message-KAFKED'' (fst (emit both_phases store_db broken_store (\<lambda>a. incoming) 0)) = [] \<and>
   type (fst (snd (emit both_phases store_db broken_store (\<lambda>a. incoming) 0)) 0) = ''incoming-message'' \<and>
   logId (metadata (fst (snd (emit both_phases store_db broken_store (\<lambda>a. incoming) 0)) 0)) = None \<and>
   invoked_exactly_once ''incoming-message'' both_phases
     (fst (emit both_phases store_db broken_store (\<lambda>a. incoming) 0)) \<and>
   console_errors (fst (emit both_phases store_db broken_store (\<lambda>a. incoming) 0)) =
     [Critical ''incoming-message'' (Error ''StoreWriteError'')]"
proof -
  note run = broken_store_run
  have fails: "(incoming, Inl (Error ''StoreWriteError'')) \<in> set (appends
       [Invoke 1 ''incoming-message'' 0 incoming,
        DbLogEvent 0 incoming (Inl (Error ''StoreWriteError'')),
        ConsoleError (Critical ''incoming-message'' (Error ''StoreWriteError''))])"
    by simp
  from append_failure_stops_publish [OF run fails] show ?thesis
    unfolding run by (simp add: incoming_type incoming_logId)
qed

subsection \<open>C4: the order of the phases\<close>

text \<open>
  Claim C4, as amended: for every published event (an event as the constructor builds it,
  carrying no \<^verbatim>\<open>logId\<close>), the eager-phase listeners are called, in registration order up
  to and including the first that throws, each handed the published object as it was
  published, with no \<^verbatim>\<open>logId\<close>; when the append is made they have all been called, each
  once, and their calls have returned. The steps the bus itself takes are in phase order:
  the eager calls, then the one append at most, then the guaranteed calls. The bus awaits
  nothing a listener returns: what an \<^verbatim>\<open>async\<close> eager listener does after its first
  \<^verbatim>\<open>await\<close> runs after the append has been started, never before.
\<close>

theorem eager_append_guaranteed_order:
  assumes run: "emit L db d h r = (tr, h', d', out)"
      and fresh: "logId (metadata (h r)) = None"
  shows "(\<forall>(i, r', e) \<in> set (invocations (type (h r)) tr).
            r' = r \<and> e = h r \<and> logId (metadata e) = None) \<and>
         map fst (invocations (type (h r)) tr) =
           map hid (takeWhile (\<lambda>l. run l (h r) = None) (L (type (h r))) @
                    take 1 (dropWhile (\<lambda>l. run l (h r) = None) (L (type (h r))))) \<and>
         sorted (phases (type (h r)) (bus_steps tr)) \<and>
         length (appends tr) \<le> 1 \<and>
         (appends tr = [] \<longrightarrow> resumed tr = []) \<and>
         (appends tr \<noteq> [] \<longrightarrow>
            invoked_exactly_once (type (h r)) L tr \<and>
            (\<exists>before x after.
               tr = before @ DbLogEvent r (h r) x # after \<and>
               before = map (\<lambda>l. Invoke (hid l) (type (h r)) r (h r)) (L (type (h r))) \<and>
               resumed before = [] \<and>
               invocations (type (h r)) after = [] \<and>
               resumed after = map (\<lambda>l. (hid l, type (h r)))
                                 (filter (\<lambda>l. deferred l (h r)) (L (type (h r))))))"
proof (cases rule: emit_cases [of L h r db d])
  case (eager_throws e)
  with run have tr: "tr = map (\<lambda>l. Invoke (hid l) (type (h r)) r (h r)) (called (L (type (h r))) (h r)) @
            [ConsoleError (Critical (type (h r)) e)]" by auto
  have inv: "map fst (invocations (type (h r)) tr) = map hid (called (L (type (h r))) (h r))"
    by (simp add: tr trace_simps comp_def)
  have a: "\<forall>(i, r', e) \<in> set (invocations (type (h r)) tr).
             r' = r \<and> e = h r \<and> logId (metadata e) = None"
    using fresh by (auto simp add: tr trace_simps)
  have b: "map fst (invocations (type (h r)) tr) =
           map hid (takeWhile (\<lambda>l. run l (h r) = None) (L (type (h r))) @
                    take 1 (dropWhile (\<lambda>l. run l (h r) = None) (L (type (h r)))))"
    by (simp only: inv called_takeWhile)
  have c: "sorted (phases (type (h r)) (bus_steps tr))"
    by (simp add: tr trace_simps sorted_const)
  have d: "appends tr = []" "resumed tr = []"
    by (simp_all add: tr trace_simps)
  from a b c d show ?thesis by simp
next
  case (append_fails e)
  let ?t = "type (h r)"
  let ?res = "map (\<lambda>i. Resume i ?t r) (pending (L ?t) (h r))"
  from append_fails run have tr: "tr = map (\<lambda>l. Invoke (hid l) ?t r (h r)) (L ?t) @
            DbLogEvent r (h r) (Inl e) # ?res @ [ConsoleError (Critical ?t e)]" by auto
  have all: "called (L ?t) (h r) = L ?t"
    using append_fails(1) by (rule native_emit_returns)
  have inv: "map fst (invocations ?t tr) = map hid (L ?t)"
    by (simp add: tr trace_simps comp_def)
  have a: "\<forall>(i, r', e) \<in> set (invocations ?t tr). r' = r \<and> e = h r \<and> logId (metadata e) = None"
    using fresh by (auto simp add: tr trace_simps)
  have b: "map fst (invocations ?t tr) =
           map hid (takeWhile (\<lambda>l. run l (h r) = None) (L ?t) @
                    take 1 (dropWhile (\<lambda>l. run l (h r) = None) (L ?t)))"
    unfolding inv by (subst called_takeWhile [symmetric]) (simp only: all)
  have "sorted (map (\<lambda>l. 0::nat) (L ?t) @ [1] @ map (\<lambda>l. 2) ([]::nat list))"
    by (rule sorted_three)
  then have c: "sorted (phases ?t (bus_steps tr))"
    by (simp add: tr trace_simps)
  have d: "length (appends tr) \<le> 1" "appends tr \<noteq> []"
    by (simp_all add: tr trace_simps)
  have e: "invoked_exactly_once ?t L tr"
    using inv by (simp add: invoked_exactly_once_def)
  have f: "\<exists>before x after.
               tr = before @ DbLogEvent r (h r) x # after \<and>
               before = map (\<lambda>l. Invoke (hid l) ?t r (h r)) (L ?t) \<and>
               resumed before = [] \<and> invocations ?t after = [] \<and>
               resumed after = map (\<lambda>l. (hid l, ?t)) (filter (\<lambda>l. deferred l (h r)) (L ?t))"
  proof (intro exI conjI)
    show "tr = map (\<lambda>l. Invoke (hid l) ?t r (h r)) (L ?t) @
            DbLogEvent r (h r) (Inl e) # (?res @ [ConsoleError (Critical ?t e)])"
      by (simp add: tr)
    show "resumed (?res @ [ConsoleError (Critical ?t e)]) =
            map (\<lambda>l. (hid l, ?t)) (filter (\<lambda>l. deferred l (h r)) (L ?t))"
      by (simp add: resumed_append resumed_pending)
  qed (simp_all add: trace_simps)
  from a b c d e f show ?thesis by simp
next
  case (append_ok lid d1)
  let ?t = "type (h r)"
  let ?kt = "type (h r) @ ''-KAFKED''"
  let ?p = "promoted (h r) lid"
  let ?res = "map (\<lambda>i. Resume i ?t r) (pending (L ?t) (h r))"
  let ?tail = "case snd (snd (native_emit L ?kt r (h(r := ?p)))) of
                 None \<Rightarrow> [] | Some e \<Rightarrow> [ConsoleError (Critical ?kt e)]"
  let ?after = "?res @ ConsoleLog (Persisted ?t lid) #
            map (\<lambda>l. Invoke (hid l) ?kt r ?p) (called (L ?kt) ?p) @ ?tail"
  from append_ok run have tr: "tr = map (\<lambda>l. Invoke (hid l) ?t r (h r)) (L ?t) @
            DbLogEvent r (h r) (Inr lid) # ?after" by auto
  have tail: "invocations ?t ?tail = []" "appends ?tail = []" "phases ?t (bus_steps ?tail) = []"
             "resumed ?tail = []"
    by (simp_all split: option.splits)
  have all: "called (L ?t) (h r) = L ?t"
    using append_ok(1) by (rule native_emit_returns)
  have inv: "map fst (invocations ?t tr) = map hid (L ?t)"
    using tail by (simp add: tr trace_simps comp_def)
  have a: "\<forall>(i, r', e) \<in> set (invocations ?t tr). r' = r \<and> e = h r \<and> logId (metadata e) = None"
    using fresh tail by (auto simp add: tr trace_simps)
  have b: "map fst (invocations ?t tr) =
           map hid (takeWhile (\<lambda>l. run l (h r) = None) (L ?t) @
                    take 1 (dropWhile (\<lambda>l. run l (h r) = None) (L ?t)))"
    unfolding inv by (subst called_takeWhile [symmetric]) (simp only: all)
  have "sorted (map (\<lambda>l. 0::nat) (L ?t) @ [1] @ map (\<lambda>l. 2) (called (L ?kt) ?p))"
    by (rule sorted_three)
  then have c: "sorted (phases ?t (bus_steps tr))"
    using tail by (simp add: tr trace_simps)
  have d: "length (appends tr) \<le> 1" "appends tr \<noteq> []"
    using tail by (simp_all add: tr trace_simps)
  have e: "invoked_exactly_once ?t L tr"
    using inv by (simp add: invoked_exactly_once_def)
  have f: "\<exists>before x after.
               tr = before @ DbLogEvent r (h r) x # after \<and>
               before = map (\<lambda>l. Invoke (hid l) ?t r (h r)) (L ?t) \<and>
               resumed before = [] \<and> invocations ?t after = [] \<and>
               resumed after = map (\<lambda>l. (hid l, ?t)) (filter (\<lambda>l. deferred l (h r)) (L ?t))"
  proof (intro exI conjI)
    show "tr = map (\<lambda>l. Invoke (hid l) ?t r (h r)) (L ?t) @ DbLogEvent r (h r) (Inr lid) # ?after"
      by (simp add: tr)
    show "resumed ?after = map (\<lambda>l. (hid l, ?t)) (filter (\<lambda>l. deferred l (h r)) (L ?t))"
      using tail by (simp add: resumed_append resumed_pending resumed_Invoke)
    show "invocations ?t ?after = []"
      using tail by (simp add: trace_simps)
  qed (simp_all add: trace_simps)
  from a b c d e f show ?thesis by simp
qed

theorem eager_append_guaranteed_order_witness:
  "logId (metadata incoming) = None \<and>
   list_all (\<lambda>(i, r', e). logId (metadata e) = None)
     (invocations ''incoming-message'' (fst (emit async_listeners store_db empty_store (\<lambda>a. incoming) 0))) \<and>
   map fst (invocations ''incoming-message''
              (fst (emit async_listeners store_db empty_store (\<lambda>a. incoming) 0))) = [1] \<and>
   sorted (phases ''incoming-message''
             (bus_steps (fst (emit async_listeners store_db empty_store (\<lambda>a. incoming) 0)))) \<and>
   phases ''incoming-message''
     (bus_steps (fst (emit async_listeners store_db empty_store (\<lambda>a. incoming) 0))) = [0, 1, 2] \<and>
   appends (fst (emit async_listeners store_db empty_store (\<lambda>a. incoming) 0)) = [(incoming, Inr 42)] \<and>
   invoked_exactly_once ''incoming-message'' async_listeners
     (fst (emit async_listeners store_db empty_store (\<lambda>a. incoming) 0)) \<and>
   resumed (fst (emit async_listeners store_db empty_store (\<lambda>a. incoming) 0)) = [(1, ''incoming-message'')]"
proof -
  note run = async_listeners_run
  have fresh: "logId (metadata ((\<lambda>a. incoming) 0)) = None"
    by (simp add: incoming_logId)
  have ap: "appends [Invoke 1 ''incoming-message'' 0 incoming,
       DbLogEvent 0 incoming (Inr 42),
       Resume 1 ''incoming-message'' 0,
       ConsoleLog (Persisted ''incoming-message'' 42),
       Invoke 2 ''incoming-message-KAFKED'' 0 (promoted incoming 42)] \<noteq> []"
    by simp
  from eager_append_guaranteed_order [OF run fresh] ap show ?thesis
    unfolding run
    by (auto simp add: incoming_type incoming_logId list_all_iff phases_def List.map_filter_def
          async_listeners_eager awaiting_def)
qed

text \<open>
  Claim C4 as stated has no step of a later phase before the earlier phase has completed.
  With the \<^verbatim>\<open>async\<close> listeners of the sources, the eager listener has been called and has
  returned a promise when the bus calls \<^verbatim>\<open>db.logEvent\<close>; the rest of its body runs after
  the append has been started. The steps of the publish, by phase, are eager, append,
  eager, guaranteed.
\<close>

theorem async_eager_listener_outlives_append:
  "logId (metadata incoming) = None \<and>
   phases ''incoming-message'' (fst (emit async_listeners store_db empty_store (\<lambda>a. incoming) 0))
     = [0, 1, 0, 2] \<and>
   \<not> sorted (phases ''incoming-message''
               (fst (emit async_listeners store_db empty_store (\<lambda>a. incoming) 0)))"
  unfolding async_listeners_run
  by (simp add: incoming_logId phases_def List.map_filter_def)

subsection \<open>C5: a missing or mismatched source event\<close>

text \<open>
  Claim C5: for every guaranteed-phase notification whose re-fetch by \<^verbatim>\<open>logId\<close> returns no
  record, or a record whose type is not \<^verbatim>\<open>'incoming-message'\<close>, the projector aborts: it
  writes no read-model row, publishes no event, fetches once and does not retry, and
  reports the anomaly with one \<^verbatim>\<open>console.error\<close> line. The whole run is the console line of
  the start, the fetch and that error line; the store and the environment are unchanged.
\<close>

theorem projector_aborts_on_missing_source:
  assumes run: "on_incoming_message_KAFKED db g d ev = (tr, d', g')"
      and fetched: "getEventByLogId db d (logId (metadata ev)) = Inr x"
      and anomaly: "x = None \<or> (\<exists>s. x = Some s \<and> type s \<noteq> ''incoming-message'')"
  shows "rows_written tr = [] \<and> published tr = [] \<and>
         fetches tr = [logId (metadata ev)] \<and>
         console_errors tr = [InvalidOrMissing (logId (metadata ev))] \<and>
         tr = [ConsoleLog (Projecting (logId (metadata ev))),
               DbGetEventByLogId (logId (metadata ev)) (Inr x),
               ConsoleError (InvalidOrMissing (logId (metadata ev)))] \<and>
         d' = d \<and> g' = g"
proof -
  from anomaly have "missing_or_invalid x"
    by (auto simp add: missing_or_invalid_def)
  from projector_aborts [OF fetched this, of g] run show ?thesis
    by auto
qed

theorem projector_aborts_on_missing_source_witness:
  "getEventByLogId store_db empty_store (logId (metadata (promoted incoming 42))) = Inr None \<and>
   rows_written (fst (on_incoming_message_KAFKED store_db later_env empty_store (promoted incoming 42))) = [] \<and>
   published (fst (on_incoming_message_KAFKED store_db later_env empty_store (promoted incoming 42))) = [] \<and>
   fetches (fst (on_incoming_message_KAFKED store_db later_env empty_store (promoted incoming 42))) = [Some 42] \<and>
   console_errors (fst (on_incoming_message_KAFKED store_db later_env empty_store (promoted incoming 42)))
     = [InvalidOrMissing (Some 42)]"
proof -
  note run = not_found_run
  have fetched: "getEventByLogId store_db empty_store (logId (metadata (promoted incoming 42))) = Inr None"
    by (simp add: store_db_def promoted_def empty_fetch)
  have anomaly: "(None :: event option) = None \<or> (\<exists>s. None = Some s \<and> type s \<noteq> ''incoming-message'')"
    by simp
  from projector_aborts_on_missing_source [OF run fetched anomaly] fetched show ?thesis
    unfolding run by (simp add: promoted_def)
qed

subsection \<open>C6: the projected event\<close>

text \<open>
  Claim C6: for every successful projection (the read-model write returned a row), the
  projector publishes exactly one new domain event, of type \<^verbatim>\<open>'message-projected'\<close>, whose
  payload is the row written, whose \<^verbatim>\<open>metadata.correlationId\<close> is that of the triggering
  event and whose \<^verbatim>\<open>metadata.causationId\<close> is the triggering event's \<^verbatim>\<open>eventId\<close>. The
  triggering event is a domain event as the constructor builds them.
\<close>

theorem projected_event_causal_metadata:
  assumes run: "on_incoming_message_KAFKED db g d ev = (tr, d', g')"
      and written: "DbAddMessage c u m (Inr row) \<in> set tr"
      and ev: "constructed ev"
  shows "\<exists>projectedEvent.
           published tr = [projectedEvent] \<and>
           type projectedEvent = ''message-projected'' \<and>
           payload projectedEvent = row \<and>
           correlationId (metadata projectedEvent) = correlationId (metadata ev) \<and>
           causationId (metadata projectedEvent) = Str (eventId ev) \<and>
           eventId projectedEvent = uuids g (uuid_calls g) \<and>
           logId (metadata projectedEvent) = None"
proof (cases rule: projector_cases [of db d ev])
  case (fetch_fails e)
  from projector_fetch_fails [OF this, of g] run written show ?thesis by auto
next
  case (aborts x)
  from projector_aborts [OF this, of g] run written show ?thesis by auto
next
  case (bad_payload x e)
  from projector_bad_payload [OF this, of g] run written show ?thesis by auto
next
  case (write_fails x c1 u1 m1 e)
  from projector_write_fails [OF this, of g] run written show ?thesis by auto
next
  case (succeeds x c1 u1 m1 row1 d1)
  let ?pe = "fst (DomainEvent g ''message-projected'' row1
                        (Some [(''correlationId'', correlationId (metadata ev)),
                               (''causationId'', Str (eventId ev))]))"
  from projector_succeeds [OF succeeds, of g] run
  have tr: "tr = [ConsoleLog (Projecting (logId (metadata ev))),
             DbGetEventByLogId (logId (metadata ev)) (Inr x),
             DbAddMessage c1 u1 m1 (Inr row1), BusEmit ?pe]" by auto
  with written have row: "row1 = row" by simp
  have ids: "or_null (correlationId (metadata ev)) = correlationId (metadata ev)"
            "or_null (Str (eventId ev)) = Str (eventId ev)"
    using ev by (simp_all add: constructed_def or_null_def)
  have "published tr = [?pe] \<and> type ?pe = ''message-projected'' \<and> payload ?pe = row \<and>
        correlationId (metadata ?pe) = correlationId (metadata ev) \<and>
        causationId (metadata ?pe) = Str (eventId ev) \<and>
        eventId ?pe = uuids g (uuid_calls g) \<and> logId (metadata ?pe) = None"
    using ids by (simp add: tr row DomainEvent_fields supplied_def field_of_def)
  then show ?thesis by blast
qed

theorem projected_event_causal_metadata_witness:
  "constructed (promoted incoming 42) \<and>
   DbAddMessage (Num 1) (Num 7) (Str ''hi'')
       (Inr (Obj [(''id_chat'', Num 1), (''id_user'', Num 7), (''message'', Str ''hi'')]))
     \<in> set (fst (on_incoming_message_KAFKED store_db later_env logged_store (promoted incoming 42))) \<and>
   map type (published (fst (on_incoming_message_KAFKED store_db later_env logged_store (promoted incoming 42))))
     = [''message-projected''] \<and>
   map (\<lambda>e. correlationId (metadata e))
       (published (fst (on_incoming_message_KAFKED store_db later_env logged_store (promoted incoming 42))))
     = [correlationId (metadata incoming)] \<and>
   map (\<lambda>e. causationId (metadata e))
       (published (fst (on_incoming_message_KAFKED store_db later_env logged_store (promoted incoming 42))))
     = [Str (eventId incoming)]"
proof -
  note run = projection_run
  have written: "DbAddMessage (Num 1) (Num 7) (Str ''hi'')
       (Inr (Obj [(''id_chat'', Num 1), (''id_user'', Num 7), (''message'', Str ''hi'')]))
     \<in> set [ConsoleLog (Projecting (Some 42)),
       DbGetEventByLogId (Some 42) (Inr (Some incoming)),
       DbAddMessage (Num 1) (Num 7) (Str ''hi'')
         (Inr (Obj [(''id_chat'', Num 1), (''id_user'', Num 7), (''message'', Str ''hi'')])),
       BusEmit \<lparr> eventId = ''e+'', type = ''message-projected'',
                 payload = Obj [(''id_chat'', Num 1), (''id_user'', Num 7), (''message'', Str ''hi'')],
                 metadata = \<lparr> timestamp = ''t+'', correlationId = Str ''c-1'',
                               causationId = Str ''e'', logId = None \<rparr> \<rparr>]"
    by simp
  have ev: "constructed (promoted incoming 42)"
    by (simp add: constructed_def promoted_incoming or_null_def)
  from projected_event_causal_metadata [OF run written ev] ev show ?thesis
    unfolding run by (auto simp add: promoted_def incoming_fields)
qed

subsection \<open>C7: the constructor\<close>

text \<open>
  Claim C7, as amended: for every call of the constructor with a type, a payload and
  optional metadata, the result carries the identifier \<^verbatim>\<open>uuidv4()\<close> returns for this call
  (different from every identifier issued before, when the generator never repeats
  itself), the given type and payload, the time read at the call as timestamp, and as
  \<^verbatim>\<open>correlationId\<close> and \<^verbatim>\<open>causationId\<close> the supplied value when that value is truthy and
  \<^verbatim>\<open>null\<close> otherwise (absent, \<^verbatim>\<open>null\<close>, or a falsy value such as the empty string). It sets
  no \<^verbatim>\<open>logId\<close>, and does nothing else than draw one identifier and read the clock once.
\<close>

theorem DomainEvent_result:
  assumes "DomainEvent g ty pl md = (e, g')"
  shows "eventId e = uuids g (uuid_calls g) \<and>
         (inj (uuids g) \<longrightarrow> eventId e \<notin> issued g) \<and>
         issued g' = insert (eventId e) (issued g) \<and>
         type e = ty \<and> payload e = pl \<and>
         timestamp (metadata e) = clock g (clock_reads g) \<and>
         correlationId (metadata e) =
           (if truthy (supplied md ''correlationId'') then supplied md ''correlationId'' else Null) \<and>
         causationId (metadata e) =
           (if truthy (supplied md ''causationId'') then supplied md ''causationId'' else Null) \<and>
         logId (metadata e) = None \<and>
         g' = g\<lparr>uuid_calls := Suc (uuid_calls g), clock_reads := Suc (clock_reads g)\<rparr>"
proof -
  from assms have e: "e = \<lparr> eventId = uuids g (uuid_calls g), type = ty, payload = pl,
        metadata = \<lparr> timestamp = clock g (clock_reads g),
                      correlationId = or_null (supplied md ''correlationId''),
                      causationId = or_null (supplied md ''causationId''),
                      logId = None \<rparr> \<rparr>"
    and g': "g' = g\<lparr>uuid_calls := Suc (uuid_calls g), clock_reads := Suc (clock_reads g)\<rparr>"
    by (simp_all add: DomainEvent_fields)
  have fresh: "inj (uuids g) \<longrightarrow> uuids g (uuid_calls g) \<notin> issued g"
    by (auto simp add: issued_def inj_def)
  have grown: "issued g' = insert (uuids g (uuid_calls g)) (issued g)"
    by (simp add: g' issued_def lessThan_Suc)
  show ?thesis
    using fresh grown by (simp add: e g' or_null_def)
qed

theorem DomainEvent_result_witness:
  "inj (uuids scenario_env) \<and> eventId incoming = ''e'' \<and> eventId incoming \<notin> issued scenario_env \<and>
   type incoming = ''incoming-message'' \<and> payload incoming = hi_payload \<and>
   timestamp (metadata incoming) = ''t'' \<and>
   correlationId (metadata incoming) = Str ''c-1'' \<and>
   causationId (metadata incoming) = Null \<and>
   logId (metadata incoming) = None"
proof -
  have run: "DomainEvent scenario_env ''incoming-message'' hi_payload (Some [(''correlationId'', Str ''c-1'')])
               = (incoming, snd (DomainEvent scenario_env ''incoming-message'' hi_payload (Some [(''correlationId'', Str ''c-1'')])))"
    by (simp add: incoming_def)
  from DomainEvent_result [OF run] scenario_uuids_inj show ?thesis
    by (simp add: scenario_env_def supplied_def field_of_def issued_def)
qed

text \<open>
  Claim C7 as stated has a supplied \<^verbatim>\<open>correlationId\<close> copied. A supplied empty string is
  not: \<^verbatim>\<open>'' || null\<close> is \<^verbatim>\<open>null\<close>.
\<close>

theorem empty_correlationId_not_copied:
  "\<not> copied_or_null (Some [(''correlationId'', Str '''')]) ''correlationId''
       (correlationId (metadata (fst (DomainEvent scenario_env ''incoming-message'' hi_payload
          (Some [(''correlationId'', Str '''')])))))"
  by (simp add: DomainEvent_fields copied_or_null_def supplied_def field_of_def or_null_def)

subsection \<open>C8: suffix and log identifier\<close>

text \<open>
  Claim C8, as amended: a listener invoked in the guaranteed phase is always handed an
  event whose type ends in \<^verbatim>\<open>-KAFKED\<close> and whose \<^verbatim>\<open>logId\<close> is set; an eager listener is
  handed the event as published, so every delivery of a publish satisfies the invariant
  (suffix exactly when there is a \<^verbatim>\<open>logId\<close>) provided the published event satisfies it, as
  does every event built with an unsuffixed type.
\<close>

theorem suffix_invariant_on_delivery:
  assumes run: "emit L db d h r = (tr, h', d', out)"
  shows "(\<forall>(i, r', e) \<in> set (invocations (type (h r) @ ''-KAFKED'') tr).
            has_KAFKED_suffix (type e) \<and> logId (metadata e) \<noteq> None) \<and>
         (suffix_invariant (h r) \<longrightarrow> list_all (\<lambda>(r', e). suffix_invariant e) (delivered tr))"
proof (cases rule: emit_cases [of L h r db d])
  case (eager_throws e)
  with run have tr: "tr = map (\<lambda>l. Invoke (hid l) (type (h r)) r (h r)) (called (L (type (h r))) (h r)) @
            [ConsoleError (Critical (type (h r)) e)]" by auto
  show ?thesis
    by (auto simp add: tr trace_simps list_all_iff)
next
  case (append_fails e)
  with run have tr: "tr = map (\<lambda>l. Invoke (hid l) (type (h r)) r (h r)) (L (type (h r))) @
            DbLogEvent r (h r) (Inl e) #
            map (\<lambda>i. Resume i (type (h r)) r) (pending (L (type (h r))) (h r)) @
            [ConsoleError (Critical (type (h r)) e)]" by auto
  show ?thesis
    by (auto simp add: tr trace_simps list_all_iff)
next
  case (append_ok lid d1)
  let ?t = "type (h r)"
  let ?kt = "type (h r) @ ''-KAFKED''"
  let ?p = "promoted (h r) lid"
  let ?tail = "case snd (snd (native_emit L ?kt r (h(r := ?p)))) of
                 None \<Rightarrow> [] | Some e \<Rightarrow> [ConsoleError (Critical ?kt e)]"
  from append_ok run have tr: "tr = map (\<lambda>l. Invoke (hid l) ?t r (h r)) (L ?t) @
            DbLogEvent r (h r) (Inr lid) # map (\<lambda>i. Resume i ?t r) (pending (L ?t) (h r)) @
            ConsoleLog (Persisted ?t lid) #
            map (\<lambda>l. Invoke (hid l) ?kt r ?p) (called (L ?kt) ?p) @ ?tail" by auto
  have tail: "invocations ?kt ?tail = []" "delivered ?tail = []"
    by (simp_all split: option.splits)
  have p: "has_KAFKED_suffix (type ?p)" "logId (metadata ?p) \<noteq> None" "suffix_invariant ?p"
    by (simp_all add: promoted_def has_KAFKED_suffix_appended suffix_invariant_def)
  show ?thesis
    using tail p by (auto simp add: tr trace_simps list_all_iff)
qed

theorem suffix_invariant_on_delivery_witness:
  "suffix_invariant incoming \<and>
   list_all (\<lambda>(r', e). suffix_invariant e)
     (delivered (fst (emit both_phases store_db empty_store (\<lambda>a. incoming) 0)))"
proof -
  note run = both_phases_run
  have inv: "suffix_invariant incoming"
    by (simp add: incoming_fields suffix_invariant_def has_KAFKED_suffix_def)
  from suffix_invariant_on_delivery [OF run] inv show ?thesis
    unfolding run by simp
qed

text \<open>
  Claim C8 as stated holds at every delivery. The bus does not look at the type it is
  given: an event built with the type \<^verbatim>\<open>'incoming-message-KAFKED'\<close> is delivered in the
  eager phase to the listeners of that type, suffixed and with no \<^verbatim>\<open>logId\<close>.
\<close>

theorem forged_suffix_breaks_invariant:
  "\<not> list_all (\<lambda>(r', e). suffix_invariant e)
        (delivered (fst (emit both_phases store_db empty_store (\<lambda>a. forged) 0)))"
  unfolding forged_run
  by (simp add: forged_fields suffix_invariant_def has_KAFKED_suffix_def)

subsection \<open>C9: what the promotion writes\<close>

text \<open>
  Claim C9: when the append succeeds, the promotion step writes to the published object
  only, and there only \<^verbatim>\<open>type\<close> and \<^verbatim>\<open>metadata.logId\<close>. Eager and guaranteed listeners are
  handed the same object; what the guaranteed ones see agrees with what the eager ones saw
  on \<^verbatim>\<open>eventId\<close>, \<^verbatim>\<open>payload\<close>, \<^verbatim>\<open>timestamp\<close>, \<^verbatim>\<open>correlationId\<close> and \<^verbatim>\<open>causationId\<close>; and the
  object an eager listener kept a reference to has, after the promotion, the suffixed type
  and the log identifier.
\<close>

theorem promotion_writes_type_and_logId_only:
  assumes run: "emit L db d h r = (tr, h', d', out)"
      and ok: "(ev, Inr lid) \<in> set (appends tr)"
  shows "h' = h(r := (h r)\<lparr>metadata := (metadata (h r))\<lparr>logId := Some lid\<rparr>,
                          type := type (h r) @ ''-KAFKED''\<rparr>) \<and>
         (\<forall>(i, r1, e1) \<in> set (invocations (type (h r)) tr).
            \<forall>(j, r2, e2) \<in> set (invocations (type (h r) @ ''-KAFKED'') tr).
              r1 = r \<and> r2 = r \<and> e1 = h r \<and> e2 = h' r \<and>
              eventId e2 = eventId e1 \<and> payload e2 = payload e1 \<and>
              timestamp (metadata e2) = timestamp (metadata e1) \<and>
              correlationId (metadata e2) = correlationId (metadata e1) \<and>
              causationId (metadata e2) = causationId (metadata e1)) \<and>
         type (h' r) = type (h r) @ ''-KAFKED'' \<and> logId (metadata (h' r)) = Some lid"
proof (cases rule: emit_cases [of L h r db d])
  case (eager_throws e)
  with run have "appends tr = []" by (auto simp add: trace_simps)
  with ok show ?thesis by simp
next
  case (append_fails e)
  with run have "appends tr = [(h r, Inl e)]" by (auto simp add: trace_simps)
  with ok show ?thesis by simp
next
  case (append_ok l1 d1)
  let ?t = "type (h r)"
  let ?kt = "type (h r) @ ''-KAFKED''"
  let ?p = "promoted (h r) l1"
  let ?tail = "case snd (snd (native_emit L ?kt r (h(r := ?p)))) of
                 None \<Rightarrow> [] | Some e \<Rightarrow> [ConsoleError (Critical ?kt e)]"
  from append_ok run have tr: "tr = map (\<lambda>l. Invoke (hid l) ?t r (h r)) (L ?t) @
            DbLogEvent r (h r) (Inr l1) # map (\<lambda>i. Resume i ?t r) (pending (L ?t) (h r)) @
            ConsoleLog (Persisted ?t l1) #
            map (\<lambda>l. Invoke (hid l) ?kt r ?p) (called (L ?kt) ?p) @ ?tail"
    and h': "h' = h(r := ?p)" by auto
  have tail: "invocations ?kt ?tail = []" "invocations ?t ?tail = []" "appends ?tail = []"
    by (simp_all split: option.splits)
  from tr ok tail have lid: "l1 = lid" by (simp add: trace_simps)
  show ?thesis
    using tail by (auto simp add: tr h' lid [symmetric] trace_simps promoted_def)
qed

theorem promotion_writes_type_and_logId_only_witness:
  "(incoming, Inr 42) \<in> set (appends (fst (emit both_phases store_db empty_store (\<lambda>a. incoming) 0))) \<and>
   fst (snd (emit both_phases store_db empty_store (\<lambda>a. incoming) 0)) 0 =
     incoming\<lparr>metadata := (metadata incoming)\<lparr>logId := Some 42\<rparr>, type := ''incoming-message-KAFKED''\<rparr> \<and>
   fst (snd (emit both_phases store_db empty_store (\<lambda>a. incoming) 0)) 1 = incoming"
proof -
  note run = both_phases_run
  have ok: "(incoming, Inr 42) \<in> set (appends
       [Invoke 1 ''incoming-message'' 0 incoming, DbLogEvent 0 incoming (Inr 42),
        ConsoleLog (Persisted ''incoming-message'' 42),
        Invoke 2 ''incoming-message-KAFKED'' 0 (promoted incoming 42)])"
    by simp
  from promotion_writes_type_and_logId_only [OF run ok] show ?thesis
    unfolding run by (simp add: incoming_type)
qed

subsection \<open>C10: an eager listener that throws\<close>

text \<open>
  Claim C10: the promise of \<^verbatim>\<open>emit\<close> always resolves; and if an eager-phase listener
  throws, the append is not made (no call of \<^verbatim>\<open>logEvent\<close>, the store unchanged), the event
  is not promoted, no guaranteed-phase listener runs, and the exception thrown ends in one
  \<^verbatim>\<open>console.error\<close> line.
\<close>

theorem eager_throw_skips_append:
  assumes run: "emit L db d h r = (tr, h', d', out)"
  shows "out = Resolved \<and>
         ((\<exists>l \<in> set (L (type (h r))). run l (h r) \<noteq> None) \<longrightarrow>
            appends tr = [] \<and> d' = d \<and> h' = h \<and>
            invocations (type (h r) @ ''-KAFKED'') tr = [] \<and>
            (\<exists>l \<in> set (L (type (h r))). \<exists>e. run l (h r) = Some e \<and>
               console_errors tr = [Critical (type (h r)) e]))"
proof (cases rule: emit_cases [of L h r db d])
  case (eager_throws e)
  with run have tr: "tr = map (\<lambda>l. Invoke (hid l) (type (h r)) r (h r)) (called (L (type (h r))) (h r)) @
            [ConsoleError (Critical (type (h r)) e)]"
    and rest: "h' = h" "d' = d" "out = Resolved" by auto
  show ?thesis
  proof (intro conjI impI)
    assume "\<exists>l \<in> set (L (type (h r))). run l (h r) \<noteq> None"
    then have "L (type (h r)) \<noteq> []" by auto
    with native_emit_thrown [OF eager_throws(1)]
    show "\<exists>l \<in> set (L (type (h r))). \<exists>e. run l (h r) = Some e \<and>
               console_errors tr = [Critical (type (h r)) e]"
      by (auto simp add: tr trace_simps)
  qed (simp_all add: rest tr trace_simps)
next
  case (append_fails e)
  with run have out: "out = Resolved" by auto
  have "\<not> (\<exists>l \<in> set (L (type (h r))). run l (h r) \<noteq> None)"
    using append_fails(1) native_emit_throws by blast
  with out show ?thesis by blast
next
  case (append_ok lid d1)
  with run have out: "out = Resolved" by auto
  have "\<not> (\<exists>l \<in> set (L (type (h r))). run l (h r) \<noteq> None)"
    using append_ok(1) native_emit_throws by blast
  with out show ?thesis by blast
qed

theorem eager_throw_skips_append_witness:
  "throwing 1 \<in> set (first_eager_throws ''incoming-message'') \<and>
   run (throwing 1) incoming \<noteq> None \<and>
   appends (fst (emit first_eager_throws store_db empty_store (\<lambda>a. incoming) 0)) = [] \<and>
   invocations ''incoming-message-KAFKED'' (fst (emit first_eager_throws store_db empty_store (\<lambda>a. incoming) 0)) = [] \<and>
   fst (snd (snd (emit first_eager_throws store_db empty_store (\<lambda>a. incoming) 0))) = empty_store \<and>
   snd (snd (snd (emit first_eager_throws store_db empty_store (\<lambda>a. incoming) 0))) = Resolved"
proof -
  note run = first_eager_throws_run
  have l: "throwing 1 \<in> set (first_eager_throws ''incoming-message'')"
    by (simp add: first_eager_throws_eager)
  have t: "run (throwing 1) incoming \<noteq> None"
    by (simp add: throwing_def)
  have "\<exists>l \<in> set (first_eager_throws (type ((\<lambda>a. incoming) 0))). run l ((\<lambda>a. incoming) 0) \<noteq> None"
    using l t by (auto simp add: incoming_type)
  with eager_throw_skips_append [OF run] l t show ?thesis
    unfolding run by (simp add: incoming_type)
qed

end
